theory Spec2Isabelle
  imports Complex_Main
begin

section \<open>Watchers (Watcher.hxx)\<close>

text \<open>
  The development follows the version of the dispatcher that has the \<open>m_cleaning\<close> flag
  (the second \<open>Dispatcher.hxx\<close>) and the \<open>Watcher.hxx\<close> that goes with it (the one
  built on \<open>Loop\<close>, whose \<open>start\<close> returns \<open>is_active()\<close>).

  A libev watcher struct starts with the common header (of which the code only reads
  \<open>active\<close>) followed by the fields of its kind; \<open>ev_timer\<close>, \<open>ev_io\<close> and
  \<open>ev_signal\<close> extend the header. \<open>is_active\<close> is \<open>watcher.active != 0\<close>. The
  fields of a kind hold what the code last passed to \<open>ev_timer_set\<close>, \<open>ev_io_set\<close> or
  \<open>ev_signal_set\<close> (how libev encodes them inside the struct is not modelled). A C
  \<open>int\<close> is modelled as an integer (no arithmetic is done on it).

  A \<open>double\<close> is a real number, one of the two infinities, or a NaN. The code only
  compares a timer parameter with zero: \<open>after < 0\<close>, \<open>repeat < 0\<close> and \<open>after >= 0\<close>.
  Both comparisons are false of a NaN.
\<close>

datatype double = Val real | PlusInf | MinusInf | NaN

fun less_zero :: "double \<Rightarrow> bool" where
  "less_zero (Val r) = (r < 0)"
| "less_zero PlusInf = False"
| "less_zero MinusInf = True"
| "less_zero NaN = False"

fun ge_zero :: "double \<Rightarrow> bool" where
  "ge_zero (Val r) = (0 \<le> r)"
| "ge_zero PlusInf = True"
| "ge_zero MinusInf = False"
| "ge_zero NaN = False"

record ev_watcher =
  active :: bool

record ev_timer = ev_watcher +
  after :: double
  repeat :: double

record ev_io = ev_watcher +
  fd :: int
  events :: int

record ev_signal = ev_watcher +
  signum :: int

text \<open>The event codes of \<open>enum Event\<close> that the development uses, with the values of
  libev's \<open>EV_READ\<close>, \<open>EV_TIMER\<close>, \<open>EV_SIGNAL\<close> and \<open>EV_CLEANUP\<close>.\<close>

definition Read :: int where
  "Read = 0x01"

definition Timer :: int where
  "Timer = 0x100"

definition Signal :: int where
  "Signal = 0x400"

definition Cleanup :: int where
  "Cleanup = 0x40000"

subsection \<open>GenericWatcher<W>\<close>

text \<open>
  \<open>start_watching\<close> and \<open>stop_watching\<close> are libev's \<open>ev_TYPE_start\<close> and
  \<open>ev_TYPE_stop\<close>: the library is not part of the repository, and is taken by its
  contract, under which a started watcher is active and a stopped one is not.
\<close>

definition is_active :: "'a ev_watcher_scheme \<Rightarrow> bool" where
  "is_active w = active w"

definition start_watching :: "'a ev_watcher_scheme \<Rightarrow> 'a ev_watcher_scheme" where
  "start_watching w = w\<lparr>active := True\<rparr>"

definition stop_watching :: "'a ev_watcher_scheme \<Rightarrow> 'a ev_watcher_scheme" where
  "stop_watching w = w\<lparr>active := False\<rparr>"

definition start :: "'a ev_watcher_scheme \<Rightarrow> bool \<times> 'a ev_watcher_scheme" where
  "start w = (let w' = (if \<not> is_active w then start_watching w else w) in (is_active w', w'))"

definition stop :: "'a ev_watcher_scheme \<Rightarrow> 'a ev_watcher_scheme" where
  "stop w = (if is_active w then stop_watching w else w)"

subsection \<open>TimerWatcher, IoWatcher, SignalWatcher\<close>

text \<open>A freshly constructed watcher: the struct is zeroed, and the I/O and signal
  constructors bind it to \<open>-1\<close>.\<close>

definition new_TimerWatcher :: ev_timer where
  "new_TimerWatcher = \<lparr>active = False, after = Val 0, repeat = Val 0\<rparr>"

definition new_IoWatcher :: ev_io where
  "new_IoWatcher = \<lparr>active = False, fd = - 1, events = 0\<rparr>"

definition new_SignalWatcher :: ev_signal where
  "new_SignalWatcher = \<lparr>active = False, signum = - 1\<rparr>"

definition fileno :: "ev_io \<Rightarrow> int" where
  "fileno w = fd w"

definition TimerWatcher_start :: "ev_timer \<Rightarrow> double \<Rightarrow> double \<Rightarrow> bool \<times> ev_timer" where
  "TimerWatcher_start w after0 repeat0 =
     (let after1 = (if less_zero after0 then Val (- 1) else after0);
          repeat1 = (if less_zero repeat0 then Val 0 else repeat0);
          w1 = (if is_active w then stop w else w);
          w2 = w1\<lparr>after := after1, repeat := repeat1\<rparr>;
          w3 = (if ge_zero after1 then start_watching w2 else w2)
      in (is_active w3, w3))"

definition IoWatcher_start :: "ev_io \<Rightarrow> int \<Rightarrow> int \<Rightarrow> bool \<times> ev_io" where
  "IoWatcher_start w fileno0 revents0 =
     (let fileno1 = (if fileno0 < 0 then - 1 else fileno0);
          revents1 = (if revents0 < 0 then 0 else revents0);
          w1 = (if is_active w then stop w else w);
          w2 = w1\<lparr>fd := fileno1, events := revents1\<rparr>;
          w3 = (if fileno1 \<ge> 0 \<and> revents1 > 0 then start_watching w2 else w2)
      in (is_active w3, w3))"

definition SignalWatcher_start :: "ev_signal \<Rightarrow> int \<Rightarrow> bool \<times> ev_signal" where
  "SignalWatcher_start w signum0 =
     (let signum1 = (if signum0 < 0 then - 1 else signum0);
          w1 = (if is_active w then stop w else w);
          w2 = w1\<lparr>signum := signum1\<rparr>;
          w3 = (if signum1 \<ge> 0 then start_watching w2 else w2)
      in (is_active w3, w3))"

text \<open>The abstract class \<open>Watcher\<close>: what a \<open>unique_ptr<Watcher>\<close> of the registry
  points to, with the three virtual methods dispatched on the dynamic type.\<close>

datatype watcher = TimerWatcher ev_timer | IoWatcher ev_io | SignalWatcher ev_signal

fun Watcher_is_active :: "watcher \<Rightarrow> bool" where
  "Watcher_is_active (TimerWatcher w) = is_active w"
| "Watcher_is_active (IoWatcher w) = is_active w"
| "Watcher_is_active (SignalWatcher w) = is_active w"

fun Watcher_start :: "watcher \<Rightarrow> bool \<times> watcher" where
  "Watcher_start (TimerWatcher w) = map_prod id TimerWatcher (start w)"
| "Watcher_start (IoWatcher w) = map_prod id IoWatcher (start w)"
| "Watcher_start (SignalWatcher w) = map_prod id SignalWatcher (start w)"

fun Watcher_stop :: "watcher \<Rightarrow> watcher" where
  "Watcher_stop (TimerWatcher w) = TimerWatcher (stop w)"
| "Watcher_stop (IoWatcher w) = IoWatcher (stop w)"
| "Watcher_stop (SignalWatcher w) = SignalWatcher (stop w)"

section \<open>The dispatcher (squall/Dispatcher.hxx)\<close>

text \<open>
  The user callbacks are opaque to the dispatcher. The model records every invocation
  of one in a trace, in order. \<open>on_target_event\<close> may call back into the dispatcher
  before it returns: its model yields the calls it makes on the target-level operations,
  in order, and the boolean it returns. (A handler that itself calls \<open>cleanup\<close> or
  drives the loop is outside this model, and so are hooks \<open>on_target_apply\<close> and
  \<open>on_target_free\<close> that call back into the dispatcher: a hook is recorded only.)
\<close>

datatype 't call =
    WatchTimer 't double
  | WatchIo 't int int
  | WatchSignal 't int
  | EnableWatching 't
  | DisableWatching 't
  | ReleaseWatching 't

datatype 't callback =
    OnEvent 't int "int option"
  | OnApply 't
  | OnFree 't

text \<open>
  \<open>targets\<close> is a \<open>std::map\<close> from the target's address to its watchers: an association
  list kept in key order (the order in which \<open>cleanup\<close> iterates).
\<close>

record 't Dispatcher =
  m_cleaning :: bool
  targets :: "('t \<times> watcher list) list"
  on_target_event :: "'t \<Rightarrow> int \<Rightarrow> int option \<Rightarrow> 't call list \<times> bool"
  on_target_present :: bool
  trace :: "'t callback list"

definition find_target :: "('t \<times> watcher list) list \<Rightarrow> 't \<Rightarrow> watcher list option" where
  "find_target m t = map_of m t"

definition insert_target :: "'t::linorder \<Rightarrow> ('t \<times> watcher list) list \<Rightarrow> ('t \<times> watcher list) list" where
  "insert_target t m = insort_key fst (t, []) m"

definition erase_target :: "'t \<Rightarrow> ('t \<times> watcher list) list \<Rightarrow> ('t \<times> watcher list) list" where
  "erase_target t m = filter (\<lambda>p. fst p \<noteq> t) m"

text \<open>Writing through \<open>found->second\<close>: the watchers stored under a key are replaced.\<close>

definition assign_watchers ::
  "'t \<Rightarrow> watcher list \<Rightarrow> ('t \<times> watcher list) list \<Rightarrow> ('t \<times> watcher list) list" where
  "assign_watchers t ws m = map (\<lambda>p. if fst p = t then (t, ws) else p) m"

definition watchers_of :: "'t Dispatcher \<Rightarrow> 't \<Rightarrow> watcher list" where
  "watchers_of d t = (case find_target (targets d) t of Some ws \<Rightarrow> ws | None \<Rightarrow> [])"

definition call_back :: "'t callback \<Rightarrow> 't Dispatcher \<Rightarrow> 't Dispatcher" where
  "call_back c d = d\<lparr>trace := trace d @ [c]\<rparr>"

text \<open>The two constructors: without and with the apply/free hooks.\<close>

definition Dispatcher_plain ::
  "('t \<Rightarrow> int \<Rightarrow> int option \<Rightarrow> 't call list \<times> bool) \<Rightarrow> 't Dispatcher" where
  "Dispatcher_plain h =
     \<lparr>m_cleaning = False, targets = [], on_target_event = h, on_target_present = False, trace = []\<rparr>"

definition Dispatcher_hooks ::
  "('t \<Rightarrow> int \<Rightarrow> int option \<Rightarrow> 't call list \<times> bool) \<Rightarrow> 't Dispatcher" where
  "Dispatcher_hooks h =
     \<lparr>m_cleaning = False, targets = [], on_target_event = h, on_target_present = True, trace = []\<rparr>"

subsection \<open>setup_watching\<close>

text \<open>The scan \<open>for (up_watcher : found->second)\<close>: the position of the first watcher
  that \<open>approve\<close> accepts.\<close>

fun first_approved :: "(watcher \<Rightarrow> bool) \<Rightarrow> watcher list \<Rightarrow> nat option" where
  "first_approved approve [] = None"
| "first_approved approve (w # ws) =
     (if approve w then Some 0 else map_option Suc (first_approved approve ws))"

text \<open>
  \<open>setup_watching<W>\<close> returns a pointer to a watcher owned by the registry: here the
  position of that watcher in the target's sequence, with the updated dispatcher.
  \<open>fresh\<close> is \<open>new W(on_target_event, m_loop)\<close>.
\<close>

definition setup_watching ::
  "watcher \<Rightarrow> (watcher \<Rightarrow> bool) \<Rightarrow> 't::linorder \<Rightarrow> 't Dispatcher \<Rightarrow> nat \<times> 't Dispatcher" where
  "setup_watching fresh approve target d =
     (let d1 = (case find_target (targets d) target of
                  None \<Rightarrow>
                    (let d0 = d\<lparr>targets := insert_target target (targets d)\<rparr>
                     in if on_target_present d0 then call_back (OnApply target) d0 else d0)
                | Some ws \<Rightarrow> d);
          ws = watchers_of d1 target
      in case first_approved approve ws of
           Some i \<Rightarrow> (i, d1)
         | None \<Rightarrow> (length ws, d1\<lparr>targets := assign_watchers target (ws @ [fresh]) (targets d1)\<rparr>))"

text \<open>\<open>p_watcher->start(...)\<close>: the method runs on the watcher the pointer designates,
  inside the registry. (The position \<open>setup_watching\<close> returns is within the sequence,
  and the watcher there is one that \<open>approve\<close> accepts: lemmas \<open>setup_in_range\<close> and
  \<open>setup_approved\<close>.)\<close>

definition at_watcher ::
  "(watcher \<Rightarrow> bool \<times> watcher) \<Rightarrow> 't \<Rightarrow> nat \<times> 't Dispatcher \<Rightarrow> bool \<times> 't Dispatcher" where
  "at_watcher method target p =
     (let i = fst p; d = snd p; ws = watchers_of d target;
          rw = method (ws ! i)
      in (fst rw, d\<lparr>targets := assign_watchers target (ws[i := snd rw]) (targets d)\<rparr>))"

subsection \<open>watch_timer, watch_io, watch_signal\<close>

text \<open>The \<open>approve\<close> closures: \<open>dynamic_cast\<close> to the requested class, then the
  comparison of the bound descriptor or signal.\<close>

fun approve_timer :: "watcher \<Rightarrow> bool" where
  "approve_timer (TimerWatcher w) = True"
| "approve_timer w = False"

fun approve_io :: "int \<Rightarrow> watcher \<Rightarrow> bool" where
  "approve_io fileno0 (IoWatcher w) = (fileno w = fileno0 \<or> fileno w = - 1)"
| "approve_io fileno0 w = False"

fun approve_signal :: "int \<Rightarrow> watcher \<Rightarrow> bool" where
  "approve_signal signum0 (SignalWatcher w) = (signum w = signum0 \<or> signum w = - 1)"
| "approve_signal signum0 w = False"

text \<open>The \<open>static_cast<W *>\<close> of the pointer and the call of \<open>W::start\<close>. The second
  equation is never reached: \<open>setup_watching<W>\<close> returns a \<open>W\<close>.\<close>

fun as_TimerWatcher_start :: "double \<Rightarrow> double \<Rightarrow> watcher \<Rightarrow> bool \<times> watcher" where
  "as_TimerWatcher_start a r (TimerWatcher w) = map_prod id TimerWatcher (TimerWatcher_start w a r)"
| "as_TimerWatcher_start a r w = (False, w)"

fun as_IoWatcher_start :: "int \<Rightarrow> int \<Rightarrow> watcher \<Rightarrow> bool \<times> watcher" where
  "as_IoWatcher_start f e (IoWatcher w) = map_prod id IoWatcher (IoWatcher_start w f e)"
| "as_IoWatcher_start f e w = (False, w)"

fun as_SignalWatcher_start :: "int \<Rightarrow> watcher \<Rightarrow> bool \<times> watcher" where
  "as_SignalWatcher_start s (SignalWatcher w) = map_prod id SignalWatcher (SignalWatcher_start w s)"
| "as_SignalWatcher_start s w = (False, w)"

definition watch_timer :: "'t::linorder Dispatcher \<Rightarrow> 't \<Rightarrow> double \<Rightarrow> bool \<times> 't Dispatcher" where
  "watch_timer d target timeout =
     (if \<not> m_cleaning d
      then at_watcher (as_TimerWatcher_start timeout timeout) target
             (setup_watching (TimerWatcher new_TimerWatcher) approve_timer target d)
      else (False, d))"

definition watch_io :: "'t::linorder Dispatcher \<Rightarrow> 't \<Rightarrow> int \<Rightarrow> int \<Rightarrow> bool \<times> 't Dispatcher" where
  "watch_io d target fileno0 events0 =
     (if \<not> m_cleaning d
      then at_watcher (as_IoWatcher_start fileno0 events0) target
             (setup_watching (IoWatcher new_IoWatcher) (approve_io fileno0) target d)
      else (False, d))"

definition watch_signal :: "'t::linorder Dispatcher \<Rightarrow> 't \<Rightarrow> int \<Rightarrow> bool \<times> 't Dispatcher" where
  "watch_signal d target signum0 =
     (if \<not> m_cleaning d
      then at_watcher (as_SignalWatcher_start signum0) target
             (setup_watching (SignalWatcher new_SignalWatcher) (approve_signal signum0) target d)
      else (False, d))"

subsection \<open>enable_watching, disable_watching, release_watching\<close>

definition enable_watching :: "'t Dispatcher \<Rightarrow> 't \<Rightarrow> bool \<times> 't Dispatcher" where
  "enable_watching d target =
     (if \<not> m_cleaning d
      then (case find_target (targets d) target of
              Some ws \<Rightarrow>
                (True, d\<lparr>targets := assign_watchers target
                     (map (\<lambda>w. if \<not> Watcher_is_active w then snd (Watcher_start w) else w) ws)
                     (targets d)\<rparr>)
            | None \<Rightarrow> (False, d))
      else (False, d))"

definition disable_watching :: "'t Dispatcher \<Rightarrow> 't \<Rightarrow> bool \<times> 't Dispatcher" where
  "disable_watching d target =
     (case find_target (targets d) target of
        Some ws \<Rightarrow> (True, d\<lparr>targets := assign_watchers target (map Watcher_stop ws) (targets d)\<rparr>)
      | None \<Rightarrow> (False, d))"

definition release_watching :: "'t Dispatcher \<Rightarrow> 't \<Rightarrow> bool \<times> 't Dispatcher" where
  "release_watching d target =
     (case find_target (targets d) target of
        Some ws \<Rightarrow>
          (let d1 = d\<lparr>targets := assign_watchers target (map Watcher_stop ws) (targets d)\<rparr>;
               d2 = d1\<lparr>targets := assign_watchers target [] (targets d1)\<rparr>;
               d3 = d2\<lparr>targets := erase_target target (targets d2)\<rparr>
           in (True, if on_target_present d3 then call_back (OnFree target) d3 else d3))
      | None \<Rightarrow> (False, d))"

subsection \<open>handler, cleanup and the destructor\<close>

fun exec_call :: "'t::linorder Dispatcher \<Rightarrow> 't call \<Rightarrow> 't Dispatcher" where
  "exec_call d (WatchTimer t timeout) = snd (watch_timer d t timeout)"
| "exec_call d (WatchIo t fileno0 events0) = snd (watch_io d t fileno0 events0)"
| "exec_call d (WatchSignal t signum0) = snd (watch_signal d t signum0)"
| "exec_call d (EnableWatching t) = snd (enable_watching d t)"
| "exec_call d (DisableWatching t) = snd (disable_watching d t)"
| "exec_call d (ReleaseWatching t) = snd (release_watching d t)"

text \<open>
  \<open>handler\<close>: all watchers of the target are stopped, the user handler runs (its
  invocation is recorded, then the calls it makes are executed), and the watchers are
  enabled again when it returned true.
\<close>

definition handler :: "'t::linorder Dispatcher \<Rightarrow> 't \<Rightarrow> int \<Rightarrow> int option \<Rightarrow> 't Dispatcher" where
  "handler d target revents payload =
     (let d1 = snd (disable_watching d target);
          res = on_target_event d1 target revents payload;
          d2 = foldl exec_call (call_back (OnEvent target revents payload) d1) (fst res)
      in if snd res then snd (enable_watching d2 target) else d2)"

text \<open>The first loop of \<open>cleanup\<close>: the keys of the registry, and those of them with
  an active watcher.\<close>

definition all_targets :: "'t Dispatcher \<Rightarrow> 't list" where
  "all_targets d = map fst (targets d)"

definition active_targets :: "'t Dispatcher \<Rightarrow> 't list" where
  "active_targets d = map fst (filter (\<lambda>p. list_ex Watcher_is_active (snd p)) (targets d))"

definition cleanup_deliver :: "'t::linorder Dispatcher \<Rightarrow> 't list \<Rightarrow> 't Dispatcher" where
  "cleanup_deliver d act = foldl (\<lambda>s t. handler s t Cleanup None) d act"

definition cleanup_release :: "'t Dispatcher \<Rightarrow> 't list \<Rightarrow> 't Dispatcher" where
  "cleanup_release d al = foldl (\<lambda>s t. snd (release_watching s t)) d al"

definition cleanup :: "'t::linorder Dispatcher \<Rightarrow> 't Dispatcher" where
  "cleanup d =
     (let d0 = d\<lparr>m_cleaning := True\<rparr>;
          al = all_targets d0;
          act = active_targets d0;
          d1 = cleanup_deliver d0 act;
          d2 = cleanup_release d1 al
      in d2\<lparr>m_cleaning := False\<rparr>)"

definition destructor :: "'t::linorder Dispatcher \<Rightarrow> 't Dispatcher" where
  "destructor d = cleanup d"

subsection \<open>Runs of the dispatcher\<close>

text \<open>
  What happens to a dispatcher from outside: a call of one of its operations, the loop
  firing a watcher (whose callback is \<open>handler\<close> bound to the target), and the
  cleanup watcher or the destructor running \<open>cleanup\<close>.
\<close>

datatype 't step = Call "'t call" | Fire 't int "int option" | RunCleanup

fun exec_step :: "'t::linorder Dispatcher \<Rightarrow> 't step \<Rightarrow> 't Dispatcher" where
  "exec_step d (Call c) = exec_call d c"
| "exec_step d (Fire t revents payload) = handler d t revents payload"
| "exec_step d RunCleanup = cleanup d"

definition run :: "'t::linorder Dispatcher \<Rightarrow> 't step list \<Rightarrow> 't Dispatcher" where
  "run d steps = foldl exec_step d steps"

section \<open>Notions used in the statements\<close>

text \<open>The target a call is about.\<close>

fun call_target :: "'t call \<Rightarrow> 't" where
  "call_target (WatchTimer t x) = t"
| "call_target (WatchIo t f e) = t"
| "call_target (WatchSignal t s) = t"
| "call_target (EnableWatching t) = t"
| "call_target (DisableWatching t) = t"
| "call_target (ReleaseWatching t) = t"

text \<open>The user handler invoked on a dispatcher: the invocation is recorded, then the
  calls it makes are run.\<close>

definition invoke_user :: "'t::linorder Dispatcher \<Rightarrow> 't \<Rightarrow> int \<Rightarrow> int option \<Rightarrow> 't Dispatcher" where
  "invoke_user d T revents payload =
     foldl exec_call (call_back (OnEvent T revents payload) d) (fst (on_target_event d T revents payload))"

text \<open>No watcher of the target is active.\<close>

definition quiescent :: "'t Dispatcher \<Rightarrow> 't \<Rightarrow> bool" where
  "quiescent d T = (\<forall>w\<in>set (watchers_of d T). \<not> Watcher_is_active w)"

text \<open>The hooks are paired: \<open>on_apply\<close> was called once more than \<open>on_free\<close> for a
  target in the registry, and as often for any other.\<close>

definition hooks_balanced :: "'t Dispatcher \<Rightarrow> 't \<Rightarrow> bool" where
  "hooks_balanced d T =
     (count_list (trace d) (OnApply T) =
        count_list (trace d) (OnFree T) + (if T \<in> set (all_targets d) then 1 else 0))"

definition owed :: "'t Dispatcher \<Rightarrow> 't \<Rightarrow> nat" where
  "owed d T = count_list (trace d) (OnFree T) + (if T \<in> set (all_targets d) then 1 else 0)"

text \<open>
  The effect of \<open>setup_watching\<close> followed by \<open>start\<close> on the sequence of one target,
  as a recursion on the sequence: the first approved watcher is restarted, or a fresh
  one is appended and started. (Lemma \<open>watch_with_find\<close> relates it to the code.)
\<close>

fun rebind :: "watcher \<Rightarrow> (watcher \<Rightarrow> bool) \<Rightarrow> (watcher \<Rightarrow> bool \<times> watcher) \<Rightarrow> watcher list
    \<Rightarrow> bool \<times> watcher list" where
  "rebind fresh approve method [] = (fst (method fresh), [snd (method fresh)])"
| "rebind fresh approve method (w # ws) =
     (if approve w then (fst (method w), snd (method w) # ws)
      else map_prod id ((#) w) (rebind fresh approve method ws))"

definition watch_with ::
  "watcher \<Rightarrow> (watcher \<Rightarrow> bool) \<Rightarrow> (watcher \<Rightarrow> bool \<times> watcher) \<Rightarrow> 't::linorder Dispatcher \<Rightarrow> 't
     \<Rightarrow> bool \<times> 't Dispatcher" where
  "watch_with fresh approve m d T = at_watcher m T (setup_watching fresh approve T d)"

text \<open>The timers, the bound descriptors and the bound signals of a sequence, in order.\<close>

fun timer_of :: "watcher \<Rightarrow> ev_timer list" where
  "timer_of (TimerWatcher w) = [w]"
| "timer_of w = []"

fun fd_of :: "watcher \<Rightarrow> int list" where
  "fd_of (IoWatcher w) = [fileno w]"
| "fd_of w = []"

fun signum_of :: "watcher \<Rightarrow> int list" where
  "signum_of (SignalWatcher w) = [signum w]"
| "signum_of w = []"

definition timers :: "watcher list \<Rightarrow> ev_timer list" where
  "timers ws = concat (map timer_of ws)"

definition io_fds :: "watcher list \<Rightarrow> int list" where
  "io_fds ws = concat (map fd_of ws)"

definition signums :: "watcher list \<Rightarrow> int list" where
  "signums ws = concat (map signum_of ws)"

text \<open>What \<open>start\<close> stores for a descriptor or a signal: a negative one becomes \<open>-1\<close>.\<close>

definition unbound :: "int \<Rightarrow> int" where
  "unbound k = (if k < 0 then - 1 else k)"

text \<open>
  The invariant of a target's sequence under the reuse rule: at most one timer; the
  descriptors (and the signals) are at least \<open>-1\<close> and pairwise different, and a
  never-bound watcher (\<open>-1\<close>) is the last of its kind.
\<close>

fun bound_once :: "int list \<Rightarrow> bool" where
  "bound_once [] = True"
| "bound_once (k # ks) = (- 1 \<le> k \<and> k \<notin> set ks \<and> (k = - 1 \<longrightarrow> ks = []) \<and> bound_once ks)"

definition reuse_inv :: "watcher list \<Rightarrow> bool" where
  "reuse_inv ws = (length (timers ws) \<le> 1 \<and> bound_once (io_fds ws) \<and> bound_once (signums ws))"

definition registry_inv :: "'t Dispatcher \<Rightarrow> bool" where
  "registry_inv d = (\<forall>T. reuse_inv (watchers_of d T))"

fun bind :: "int \<Rightarrow> int list \<Rightarrow> int list" where
  "bind k [] = [unbound k]"
| "bind k (f # fs) = (if f = k \<or> f = - 1 then unbound k # fs else f # bind k fs)"

section \<open>Example handlers and an example registry\<close>

text \<open>
  The handler of the demo program: true for a timer event, false otherwise (stopping
  the loop is outside the model). \<open>rearm\<close> always asks to be re-armed; \<open>insist\<close> also
  registers a timer for its target and enables it before returning true; \<open>quit\<close>
  releases its target and returns false.
\<close>

definition quit :: "'t \<Rightarrow> int \<Rightarrow> int option \<Rightarrow> 't call list \<times> bool" where
  "quit target revents payload = ([ReleaseWatching target], False)"

definition hello :: "'t \<Rightarrow> int \<Rightarrow> int option \<Rightarrow> 't call list \<times> bool" where
  "hello target revents payload = ([], revents = Timer)"

definition rearm :: "'t \<Rightarrow> int \<Rightarrow> int option \<Rightarrow> 't call list \<times> bool" where
  "rearm target revents payload = ([], True)"

definition insist :: "'t \<Rightarrow> int \<Rightarrow> int option \<Rightarrow> 't call list \<times> bool" where
  "insist target revents payload = ([WatchTimer target (Val 1), EnableWatching target], True)"

text \<open>
  Four targets, at the addresses 1 to 4: a timer and an I/O watcher; a timer; a signal
  watcher; a timer that was never armed. Lemma \<open>scenario_reached\<close> gives the calls
  that build it.
\<close>

definition scenario :: "bool \<Rightarrow> (nat \<Rightarrow> int \<Rightarrow> int option \<Rightarrow> nat call list \<times> bool) \<Rightarrow> nat Dispatcher" where
  "scenario hooks h =
     \<lparr>m_cleaning = False,
      targets = [(1, [TimerWatcher \<lparr>active = True, after = Val 1, repeat = Val 1\<rparr>,
                      IoWatcher \<lparr>active = True, fd = 5, events = 1\<rparr>]),
                 (2, [TimerWatcher \<lparr>active = True, after = Val 3, repeat = Val 3\<rparr>]),
                 (3, [SignalWatcher \<lparr>active = True, signum = 2\<rparr>]),
                 (4, [TimerWatcher \<lparr>active = False, after = Val (- 1), repeat = Val 0\<rparr>])],
      on_target_event = h, on_target_present = hooks,
      trace = (if hooks then [OnApply 1, OnApply 2, OnApply 3, OnApply 4] else [])\<rparr>"

section \<open>Supporting lemmas\<close>

subsection \<open>The map operations\<close>

lemma find_assign [simp]:
  "find_target (assign_watchers t ws m) t' =
     (if t' = t then map_option (\<lambda>_. ws) (find_target m t) else find_target m t')"
  by (induction m) (auto simp: find_target_def assign_watchers_def)

lemma keys_assign [simp]: "map fst (assign_watchers t ws m) = map fst m"
  by (induction m) (auto simp: assign_watchers_def)

lemma find_erase [simp]:
  "find_target (erase_target t m) t' = (if t' = t then None else find_target m t')"
  by (induction m) (auto simp: find_target_def erase_target_def)

lemma keys_erase [simp]: "set (map fst (erase_target t m)) = set (map fst m) - {t}"
  by (auto simp: erase_target_def)

lemma find_insert [simp]:
  "find_target m t = None \<Longrightarrow>
   find_target (insert_target t m) t' = (if t' = t then Some [] else find_target m t')"
  by (induction m) (auto simp: find_target_def insert_target_def)

lemma keys_insert [simp]: "set (map fst (insert_target t m)) = insert t (set (map fst m))"
  by (simp add: insert_target_def set_insort_key)

lemma find_None_iff: "find_target m t = None \<longleftrightarrow> t \<notin> set (map fst m)"
  by (simp add: find_target_def map_of_eq_None_iff)

subsection \<open>The operations, field by field\<close>

lemma first_approved_Some:
  "first_approved P ws = Some i \<Longrightarrow> i < length ws \<and> P (ws ! i)"
  by (induction ws arbitrary: i) (auto split: if_splits)

lemma first_approved_None: "first_approved P ws = None \<longleftrightarrow> (\<forall>w\<in>set ws. \<not> P w)"
  by (induction ws) auto

lemma all_targets_find: "t \<in> set (all_targets d) \<longleftrightarrow> find_target (targets d) t \<noteq> None"
  by (simp add: all_targets_def find_None_iff)

lemma find_Some_key: "find_target m t = Some ws \<Longrightarrow> t \<in> set (map fst m)"
  using find_None_iff [of m t] by auto

lemma disable_fields [simp]:
  "m_cleaning (snd (disable_watching d T)) = m_cleaning d"
  "on_target_event (snd (disable_watching d T)) = on_target_event d"
  "on_target_present (snd (disable_watching d T)) = on_target_present d"
  "trace (snd (disable_watching d T)) = trace d"
  "all_targets (snd (disable_watching d T)) = all_targets d"
  by (simp_all add: disable_watching_def all_targets_def split: option.splits)

lemma disable_find [simp]:
  "find_target (targets (snd (disable_watching d T))) t =
     (if t = T then map_option (map Watcher_stop) (find_target (targets d) T)
      else find_target (targets d) t)"
  by (simp add: disable_watching_def split: option.splits)

lemma disable_fst: "fst (disable_watching d T) = (find_target (targets d) T \<noteq> None)"
  by (simp add: disable_watching_def split: option.splits)

lemma enable_fields [simp]:
  "m_cleaning (snd (enable_watching d T)) = m_cleaning d"
  "on_target_event (snd (enable_watching d T)) = on_target_event d"
  "on_target_present (snd (enable_watching d T)) = on_target_present d"
  "trace (snd (enable_watching d T)) = trace d"
  "all_targets (snd (enable_watching d T)) = all_targets d"
  by (simp_all add: enable_watching_def all_targets_def split: option.splits)

lemma enable_cleaning: "m_cleaning d \<Longrightarrow> enable_watching d T = (False, d)"
  by (simp add: enable_watching_def)

lemma enable_find:
  "\<not> m_cleaning d \<Longrightarrow> find_target (targets (snd (enable_watching d T))) t =
     (if t = T
      then map_option (map (\<lambda>w. if \<not> Watcher_is_active w then snd (Watcher_start w) else w))
             (find_target (targets d) T)
      else find_target (targets d) t)"
  by (simp add: enable_watching_def split: option.splits)

lemma release_fields [simp]:
  "m_cleaning (snd (release_watching d T)) = m_cleaning d"
  "on_target_event (snd (release_watching d T)) = on_target_event d"
  "on_target_present (snd (release_watching d T)) = on_target_present d"
  by (simp_all add: release_watching_def call_back_def Let_def split: option.splits)

lemma release_find [simp]:
  "find_target (targets (snd (release_watching d T))) t =
     (if t = T then None else find_target (targets d) t)"
  by (simp add: release_watching_def call_back_def Let_def split: option.splits)

lemma release_keys [simp]:
  "set (all_targets (snd (release_watching d T))) = set (all_targets d) - {T}"
  by (auto simp add: release_watching_def call_back_def Let_def all_targets_def find_None_iff
      simp del: set_map split: option.splits)

lemma release_trace:
  "trace (snd (release_watching d T)) =
     trace d @ (if on_target_present d \<and> find_target (targets d) T \<noteq> None then [OnFree T] else [])"
  by (simp add: release_watching_def call_back_def Let_def split: option.splits)

lemma release_fst: "fst (release_watching d T) = (find_target (targets d) T \<noteq> None)"
  by (simp add: release_watching_def Let_def split: option.splits)

lemma setup_fields [simp]:
  "m_cleaning (snd (setup_watching fresh approve T d)) = m_cleaning d"
  "on_target_event (snd (setup_watching fresh approve T d)) = on_target_event d"
  "on_target_present (snd (setup_watching fresh approve T d)) = on_target_present d"
  by (simp_all add: setup_watching_def call_back_def Let_def split: option.splits)

lemma setup_trace:
  "trace (snd (setup_watching fresh approve T d)) =
     trace d @ (if on_target_present d \<and> find_target (targets d) T = None then [OnApply T] else [])"
  by (simp add: setup_watching_def call_back_def Let_def split: option.splits)

lemma setup_keys [simp]:
  "set (all_targets (snd (setup_watching fresh approve T d))) = insert T (set (all_targets d))"
  by (auto simp add: setup_watching_def call_back_def Let_def all_targets_def find_None_iff
      simp del: set_map split: option.splits dest: find_Some_key)

lemma setup_find:
  "find_target (targets (snd (setup_watching fresh approve T d))) t =
     (if t = T
      then Some (case first_approved approve (watchers_of d T) of
                   Some i \<Rightarrow> watchers_of d T
                 | None \<Rightarrow> watchers_of d T @ [fresh])
      else find_target (targets d) t)"
  by (simp add: setup_watching_def call_back_def Let_def watchers_of_def split: option.splits)

lemma setup_fst:
  "fst (setup_watching fresh approve T d) =
     (case first_approved approve (watchers_of d T) of Some i \<Rightarrow> i | None \<Rightarrow> length (watchers_of d T))"
  by (simp add: setup_watching_def call_back_def Let_def watchers_of_def split: option.splits)

lemma setup_in_range:
  "fst (setup_watching fresh approve T d) < length (watchers_of (snd (setup_watching fresh approve T d)) T)"
  by (auto simp add: setup_fst watchers_of_def [of "snd (setup_watching fresh approve T d)"] setup_find
      split: option.splits dest: first_approved_Some)

lemma setup_approved:
  "approve fresh \<Longrightarrow>
   approve (watchers_of (snd (setup_watching fresh approve T d)) T ! fst (setup_watching fresh approve T d))"
  by (auto simp add: setup_fst watchers_of_def [of "snd (setup_watching fresh approve T d)"] setup_find
      split: option.splits dest: first_approved_Some)

subsection \<open>watch_timer, watch_io and watch_signal on one sequence\<close>

lemma at_fields [simp]:
  "m_cleaning (snd (at_watcher m T p)) = m_cleaning (snd p)"
  "on_target_event (snd (at_watcher m T p)) = on_target_event (snd p)"
  "on_target_present (snd (at_watcher m T p)) = on_target_present (snd p)"
  "trace (snd (at_watcher m T p)) = trace (snd p)"
  "all_targets (snd (at_watcher m T p)) = all_targets (snd p)"
  by (simp_all add: at_watcher_def Let_def all_targets_def)

lemma at_find:
  "find_target (targets (snd (at_watcher m T p))) t =
     (if t = T
      then map_option (\<lambda>_. (watchers_of (snd p) T)[fst p := snd (m (watchers_of (snd p) T ! fst p))])
             (find_target (targets (snd p)) T)
      else find_target (targets (snd p)) t)"
  by (simp add: at_watcher_def Let_def)

lemma at_fst: "fst (at_watcher m T p) = fst (m (watchers_of (snd p) T ! fst p))"
  by (simp add: at_watcher_def Let_def)

lemma rebind_index:
  "rebind fresh approve m ws =
     (case first_approved approve ws of
        Some i \<Rightarrow> (fst (m (ws ! i)), ws[i := snd (m (ws ! i))])
      | None \<Rightarrow> (fst (m fresh), ws @ [snd (m fresh)]))"
  by (induction ws) (auto split: option.splits)

lemma watch_with_fields [simp]:
  "m_cleaning (snd (watch_with fresh approve m d T)) = m_cleaning d"
  "on_target_event (snd (watch_with fresh approve m d T)) = on_target_event d"
  "on_target_present (snd (watch_with fresh approve m d T)) = on_target_present d"
  by (simp_all add: watch_with_def)

lemma watch_with_trace:
  "trace (snd (watch_with fresh approve m d T)) =
     trace d @ (if on_target_present d \<and> find_target (targets d) T = None then [OnApply T] else [])"
  by (simp add: watch_with_def setup_trace)

lemma watch_with_keys [simp]:
  "set (all_targets (snd (watch_with fresh approve m d T))) = insert T (set (all_targets d))"
  by (simp add: watch_with_def)

lemma watch_with_find:
  "find_target (targets (snd (watch_with fresh approve m d T))) t =
     (if t = T then Some (snd (rebind fresh approve m (watchers_of d T)))
      else find_target (targets d) t)"
  by (auto simp add: watch_with_def at_find setup_find setup_fst rebind_index watchers_of_def
      split: option.splits)

lemma watch_with_fst:
  "fst (watch_with fresh approve m d T) = fst (rebind fresh approve m (watchers_of d T))"
  by (auto simp add: watch_with_def at_fst setup_find setup_fst rebind_index watchers_of_def
      split: option.splits)

lemma watch_timer_with:
  "watch_timer d T x =
     (if m_cleaning d then (False, d)
      else watch_with (TimerWatcher new_TimerWatcher) approve_timer (as_TimerWatcher_start x x) d T)"
  by (simp add: watch_timer_def watch_with_def)

lemma watch_io_with:
  "watch_io d T f e =
     (if m_cleaning d then (False, d)
      else watch_with (IoWatcher new_IoWatcher) (approve_io f) (as_IoWatcher_start f e) d T)"
  by (simp add: watch_io_def watch_with_def)

lemma watch_signal_with:
  "watch_signal d T s =
     (if m_cleaning d then (False, d)
      else watch_with (SignalWatcher new_SignalWatcher) (approve_signal s) (as_SignalWatcher_start s) d T)"
  by (simp add: watch_signal_def watch_with_def)

subsection \<open>Evaluation\<close>

lemmas run_defs =
  watch_timer_def watch_io_def watch_signal_def at_watcher_def setup_watching_def
  enable_watching_def disable_watching_def release_watching_def
  find_target_def insert_target_def erase_target_def assign_watchers_def watchers_of_def
  call_back_def Dispatcher_plain_def Dispatcher_hooks_def
  TimerWatcher_start_def IoWatcher_start_def SignalWatcher_start_def
  new_TimerWatcher_def new_IoWatcher_def new_SignalWatcher_def fileno_def
  is_active_def start_def stop_def start_watching_def stop_watching_def Let_def

subsection \<open>Calls: flags, trace and keys\<close>

lemma watch_fields [simp]:
  "m_cleaning (snd (watch_timer d T x)) = m_cleaning d"
  "on_target_event (snd (watch_timer d T x)) = on_target_event d"
  "on_target_present (snd (watch_timer d T x)) = on_target_present d"
  "m_cleaning (snd (watch_io d T f e)) = m_cleaning d"
  "on_target_event (snd (watch_io d T f e)) = on_target_event d"
  "on_target_present (snd (watch_io d T f e)) = on_target_present d"
  "m_cleaning (snd (watch_signal d T s)) = m_cleaning d"
  "on_target_event (snd (watch_signal d T s)) = on_target_event d"
  "on_target_present (snd (watch_signal d T s)) = on_target_present d"
  by (simp_all add: watch_timer_with watch_io_with watch_signal_with)

lemma watch_trace:
  "trace (snd (watch_timer d T x)) =
     trace d @ (if \<not> m_cleaning d \<and> on_target_present d \<and> find_target (targets d) T = None
                then [OnApply T] else [])"
  "trace (snd (watch_io d T f e)) =
     trace d @ (if \<not> m_cleaning d \<and> on_target_present d \<and> find_target (targets d) T = None
                then [OnApply T] else [])"
  "trace (snd (watch_signal d T s)) =
     trace d @ (if \<not> m_cleaning d \<and> on_target_present d \<and> find_target (targets d) T = None
                then [OnApply T] else [])"
  by (simp_all add: watch_timer_with watch_io_with watch_signal_with watch_with_trace)

lemma watch_keys:
  "set (all_targets (snd (watch_timer d T x))) =
     (if m_cleaning d then set (all_targets d) else insert T (set (all_targets d)))"
  "set (all_targets (snd (watch_io d T f e))) =
     (if m_cleaning d then set (all_targets d) else insert T (set (all_targets d)))"
  "set (all_targets (snd (watch_signal d T s))) =
     (if m_cleaning d then set (all_targets d) else insert T (set (all_targets d)))"
  by (simp_all add: watch_timer_with watch_io_with watch_signal_with)

lemma exec_call_fields [simp]:
  "m_cleaning (exec_call d c) = m_cleaning d"
  "on_target_event (exec_call d c) = on_target_event d"
  "on_target_present (exec_call d c) = on_target_present d"
  by (cases c; simp)+

lemma exec_calls_fields [simp]:
  "m_cleaning (foldl exec_call d cs) = m_cleaning d"
  "on_target_event (foldl exec_call d cs) = on_target_event d"
  "on_target_present (foldl exec_call d cs) = on_target_present d"
  by (induction cs arbitrary: d; simp)+

lemma call_back_fields [simp]:
  "m_cleaning (call_back x d) = m_cleaning d"
  "on_target_event (call_back x d) = on_target_event d"
  "on_target_present (call_back x d) = on_target_present d"
  "targets (call_back x d) = targets d"
  "all_targets (call_back x d) = all_targets d"
  "watchers_of (call_back x d) = watchers_of d"
  "trace (call_back x d) = trace d @ [x]"
  by (simp_all add: call_back_def all_targets_def watchers_of_def fun_eq_iff)

lemma handler_fields [simp]:
  "m_cleaning (handler d T r p) = m_cleaning d"
  "on_target_event (handler d T r p) = on_target_event d"
  "on_target_present (handler d T r p) = on_target_present d"
  by (simp_all add: handler_def Let_def)

lemma exec_call_events:
  "count_list (trace (exec_call d c)) (OnEvent T r p) = count_list (trace d) (OnEvent T r p)"
  by (cases c) (simp_all add: watch_trace release_trace)

lemma exec_call_apply:
  "on_target_present d \<Longrightarrow>
   count_list (trace (exec_call d c)) (OnApply T) =
     count_list (trace d) (OnApply T)
     + (if T \<notin> set (all_targets d) \<and> T \<in> set (all_targets (exec_call d c)) then 1 else 0)"
  by (cases c) (auto simp add: watch_trace release_trace watch_keys all_targets_find)

lemma exec_call_free:
  "on_target_present d \<Longrightarrow>
   count_list (trace (exec_call d c)) (OnFree T) =
     count_list (trace d) (OnFree T)
     + (if T \<in> set (all_targets d) \<and> T \<notin> set (all_targets (exec_call d c)) then 1 else 0)"
  by (cases c) (auto simp add: watch_trace release_trace watch_keys all_targets_find)

lemma exec_call_no_hooks:
  "\<not> on_target_present d \<Longrightarrow> trace (exec_call d c) = trace d"
  by (cases c) (simp_all add: watch_trace release_trace)

lemma exec_call_cleaning_keys:
  "m_cleaning d \<Longrightarrow> set (all_targets (exec_call d c)) \<subseteq> set (all_targets d)"
  by (cases c) (auto simp add: watch_keys)

subsection \<open>Invariant rules for handler and cleanup\<close>

lemma exec_calls_rule:
  assumes "\<And>s c. P s \<Longrightarrow> P (exec_call s c)" and "P d"
  shows "P (foldl exec_call d cs)"
  using assms(2) by (induction cs arbitrary: d) (simp_all add: assms(1))

lemma handler_unfold:
  "handler d T r p =
     (let d2 = foldl exec_call (call_back (OnEvent T r p) (exec_call d (DisableWatching T)))
                 (fst (on_target_event d T r p))
      in if snd (on_target_event d T r p) then exec_call d2 (EnableWatching T) else d2)"
  by (simp add: handler_def Let_def)

lemma handler_rule:
  assumes call: "\<And>s c. P s \<Longrightarrow> P (exec_call s c)"
    and ev: "\<And>s. P s \<Longrightarrow> P (call_back (OnEvent T r p) s)"
    and "P d"
  shows "P (handler d T r p)"
proof -
  have "P (call_back (OnEvent T r p) (exec_call d (DisableWatching T)))"
    using assms by blast
  then have "P (foldl exec_call (call_back (OnEvent T r p) (exec_call d (DisableWatching T)))
                 (fst (on_target_event d T r p)))"
    by (rule exec_calls_rule [where P = P, rotated]) (rule call)
  then show ?thesis
    unfolding handler_unfold Let_def using call by (simp del: exec_call.simps)
qed

lemma cleanup_deliver_rule:
  assumes call: "\<And>s c. P s \<Longrightarrow> P (exec_call s c)"
    and ev: "\<And>s t r p. P s \<Longrightarrow> P (call_back (OnEvent t r p) s)"
    and "P d"
  shows "P (cleanup_deliver d act)"
  using assms(3) unfolding cleanup_deliver_def
proof (induction act arbitrary: d)
  case Nil
  then show ?case by simp
next
  case (Cons t act)
  have "P (handler d t Cleanup None)"
    by (rule handler_rule [where P = P]) (use call ev Cons.prems in blast)+
  then show ?case using Cons.IH by simp
qed

lemma cleanup_release_calls:
  "cleanup_release d al = foldl exec_call d (map ReleaseWatching al)"
  unfolding cleanup_release_def by (induction al arbitrary: d) simp_all

lemma cleanup_release_rule:
  assumes "\<And>s c. P s \<Longrightarrow> P (exec_call s c)" and "P d"
  shows "P (cleanup_release d al)"
  unfolding cleanup_release_calls using assms by (rule exec_calls_rule)

lemma cleanup_unfold:
  "cleanup d =
     (cleanup_release (cleanup_deliver (d\<lparr>m_cleaning := True\<rparr>) (active_targets d)) (all_targets d))
       \<lparr>m_cleaning := False\<rparr>"
  by (simp add: cleanup_def Let_def all_targets_def active_targets_def)

lemma cleanup_scan_rule:
  assumes call: "\<And>s c. P s \<Longrightarrow> P (exec_call s c)"
    and ev: "\<And>s t r p. P s \<Longrightarrow> P (call_back (OnEvent t r p) s)"
    and "P (d\<lparr>m_cleaning := True\<rparr>)"
  shows "P (cleanup_release (cleanup_deliver (d\<lparr>m_cleaning := True\<rparr>) act) al)"
  by (rule cleanup_release_rule [where P = P], rule call, assumption,
      rule cleanup_deliver_rule [where P = P], rule call, assumption, rule ev, assumption,
      rule assms(3))

lemma balanced_call:
  "on_target_present d \<and> hooks_balanced d T \<Longrightarrow>
   on_target_present (exec_call d c) \<and> hooks_balanced (exec_call d c) T"
  using exec_call_apply [of d c T] exec_call_free [of d c T]
  by (auto simp add: hooks_balanced_def split: if_splits)

lemma balanced_event:
  "on_target_present d \<and> hooks_balanced d T \<Longrightarrow>
   on_target_present (call_back (OnEvent t r p) d) \<and> hooks_balanced (call_back (OnEvent t r p) d) T"
  by (simp add: hooks_balanced_def)

lemma balanced_handler:
  "on_target_present d \<and> hooks_balanced d T \<Longrightarrow>
   on_target_present (handler d t r p) \<and> hooks_balanced (handler d t r p) T"
  by (rule handler_rule [where P = "\<lambda>s. on_target_present s \<and> hooks_balanced s T"])
     (erule balanced_call balanced_event)+

lemma balanced_cleanup:
  assumes "on_target_present d \<and> hooks_balanced d T"
  shows "on_target_present (cleanup d) \<and> hooks_balanced (cleanup d) T"
proof -
  let ?P = "\<lambda>s. on_target_present s \<and> hooks_balanced s T"
  have "?P (d\<lparr>m_cleaning := True\<rparr>)"
    using assms by (simp add: hooks_balanced_def all_targets_def)
  then have "?P (cleanup_release (cleanup_deliver (d\<lparr>m_cleaning := True\<rparr>) (active_targets d)) (all_targets d))"
    by (rule cleanup_scan_rule [where P = ?P, rotated 2]) (erule balanced_call balanced_event)+
  then show ?thesis
    by (simp add: cleanup_unfold hooks_balanced_def all_targets_def)
qed

lemma balanced_step:
  assumes "on_target_present d \<and> hooks_balanced d T"
  shows "on_target_present (exec_step d st) \<and> hooks_balanced (exec_step d st) T"
proof (cases st)
  case (Call c)
  then show ?thesis using assms balanced_call [of d T c] by simp
next
  case (Fire t r p)
  then show ?thesis using assms balanced_handler [of d T t r p] by simp
next
  case RunCleanup
  then show ?thesis using assms balanced_cleanup [of d T] by simp
qed

lemma balanced_run:
  "on_target_present d \<and> hooks_balanced d T \<Longrightarrow>
   on_target_present (run d steps) \<and> hooks_balanced (run d steps) T"
  unfolding run_def
proof (induction steps arbitrary: d)
  case Nil
  then show ?case by simp
next
  case (Cons st steps)
  from Cons.prems have "on_target_present (exec_step d st) \<and> hooks_balanced (exec_step d st) T"
    by (rule balanced_step)
  then show ?case using Cons.IH by simp
qed

lemma balanced_init: "hooks_balanced (Dispatcher_hooks h) T"
  by (simp add: hooks_balanced_def Dispatcher_hooks_def all_targets_def)

subsection \<open>Quiescence and delivery\<close>

lemma handler_rule2:
  assumes call: "\<And>s c. P s \<Longrightarrow> P (exec_call s c)"
    and ev: "\<And>s. P s \<Longrightarrow> P (call_back (OnEvent T r p) s)"
    and "P (exec_call d (DisableWatching T))"
  shows "P (handler d T r p)"
proof -
  have "P (call_back (OnEvent T r p) (exec_call d (DisableWatching T)))"
    using assms by blast
  then have "P (foldl exec_call (call_back (OnEvent T r p) (exec_call d (DisableWatching T)))
                 (fst (on_target_event d T r p)))"
    by (rule exec_calls_rule [where P = P, rotated]) (rule call)
  then show ?thesis
    unfolding handler_unfold Let_def using call by (simp del: exec_call.simps)
qed

lemma watchers_disable:
  "watchers_of (snd (disable_watching d t)) T =
     (if T = t then map Watcher_stop (watchers_of d T) else watchers_of d T)"
  by (simp add: watchers_of_def split: option.splits)

lemma watchers_release:
  "watchers_of (snd (release_watching d t)) T = (if T = t then [] else watchers_of d T)"
  by (simp add: watchers_of_def split: option.splits)

lemma watchers_enable:
  "watchers_of (snd (enable_watching d t)) T =
     (if T = t \<and> \<not> m_cleaning d
      then map (\<lambda>w. if \<not> Watcher_is_active w then snd (Watcher_start w) else w) (watchers_of d T)
      else watchers_of d T)"
  by (cases "m_cleaning d") (simp_all add: watchers_of_def enable_find enable_cleaning split: option.splits)

lemma active_stop [simp]: "\<not> Watcher_is_active (Watcher_stop w)"
  by (cases w) (simp_all add: is_active_def stop_def stop_watching_def)

lemma active_start [simp]: "Watcher_is_active (snd (Watcher_start w))"
  by (cases w) (simp_all add: is_active_def start_def start_watching_def Let_def)

lemma quiescent_call_back [simp]: "quiescent (call_back x d) T = quiescent d T"
  by (simp add: quiescent_def)

lemma quiescent_disable: "quiescent (snd (disable_watching d T)) T"
  by (simp add: quiescent_def watchers_disable)

lemma cleaning_call_quiescent:
  "m_cleaning d \<and> quiescent d T \<Longrightarrow> m_cleaning (exec_call d c) \<and> quiescent (exec_call d c) T"
  by (cases c)
     (auto simp add: quiescent_def watch_timer_def watch_io_def watch_signal_def
        enable_cleaning watchers_disable watchers_release)

lemma cleaning_handler_quiescent:
  "m_cleaning d \<Longrightarrow> m_cleaning (handler d T r p) \<and> quiescent (handler d T r p) T"
  by (rule handler_rule2 [where P = "\<lambda>s. m_cleaning s \<and> quiescent s T"])
     (erule cleaning_call_quiescent, simp, simp add: quiescent_disable)

lemma cleaning_handler_keeps_quiescent:
  "m_cleaning d \<and> quiescent d T \<Longrightarrow> m_cleaning (handler d t r p) \<and> quiescent (handler d t r p) T"
  by (rule handler_rule [where P = "\<lambda>s. m_cleaning s \<and> quiescent s T"])
     (erule cleaning_call_quiescent, simp, assumption)

lemma cleaning_deliver_quiescent:
  "m_cleaning d \<Longrightarrow> T \<in> set act \<or> quiescent d T \<Longrightarrow>
   m_cleaning (cleanup_deliver d act) \<and> quiescent (cleanup_deliver d act) T"
proof (induction act arbitrary: d)
  case Nil
  then show ?case by (simp add: cleanup_deliver_def)
next
  case (Cons t act)
  have step: "cleanup_deliver d (t # act) = cleanup_deliver (handler d t Cleanup None) act"
    by (simp add: cleanup_deliver_def)
  have c: "m_cleaning (handler d t Cleanup None)" using Cons.prems(1) by simp
  have "T \<in> set act \<or> quiescent (handler d t Cleanup None) T"
  proof (cases "T = t")
    case True
    then show ?thesis using cleaning_handler_quiescent [OF Cons.prems(1), of t Cleanup None] by simp
  next
    case False
    then show ?thesis
      using Cons.prems cleaning_handler_keeps_quiescent [of d T t Cleanup None] by auto
  qed
  then show ?case unfolding step by (rule Cons.IH [OF c])
qed

lemma handler_true_active:
  assumes "\<not> m_cleaning d" and "snd (on_target_event d T r p)"
  shows "\<forall>w\<in>set (watchers_of (handler d T r p) T). Watcher_is_active w"
  using assms by (auto simp add: handler_def Let_def watchers_enable)

subsection \<open>cleanup\<close>

lemma cleanup_release_keys:
  "set (all_targets (cleanup_release d al)) = set (all_targets d) - set al"
  unfolding cleanup_release_def by (induction al arbitrary: d) auto

lemma cleaning_call_keys:
  "m_cleaning d \<and> set (all_targets d) \<subseteq> K \<Longrightarrow>
   m_cleaning (exec_call d c) \<and> set (all_targets (exec_call d c)) \<subseteq> K"
  using exec_call_cleaning_keys [of d c] by auto

lemma cleanup_deliver_keys:
  assumes "m_cleaning d"
  shows "set (all_targets (cleanup_deliver d act)) \<subseteq> set (all_targets d)"
proof -
  let ?P = "\<lambda>s. m_cleaning s \<and> set (all_targets s) \<subseteq> set (all_targets d)"
  have "?P (cleanup_deliver d act)"
    by (rule cleanup_deliver_rule [where P = ?P]) (erule cleaning_call_keys, simp, simp add: assms)
  then show ?thesis by simp
qed

lemma cleanup_fields [simp]:
  "m_cleaning (cleanup d) = False"
  "on_target_event (cleanup d) = on_target_event d"
  "on_target_present (cleanup d) = on_target_present d"
proof -
  show "m_cleaning (cleanup d) = False" by (simp add: cleanup_unfold)
  let ?P = "\<lambda>s. on_target_event s = on_target_event d \<and> on_target_present s = on_target_present d"
  have "?P (cleanup_release (cleanup_deliver (d\<lparr>m_cleaning := True\<rparr>) (active_targets d)) (all_targets d))"
    by (rule cleanup_scan_rule [where P = ?P]) simp_all
  then show "on_target_event (cleanup d) = on_target_event d"
    "on_target_present (cleanup d) = on_target_present d"
    by (simp_all add: cleanup_unfold)
qed

lemma cleanup_empties: "targets (cleanup d) = []"
proof -
  let ?d0 = "d\<lparr>m_cleaning := True\<rparr>"
  have "set (all_targets (cleanup_deliver ?d0 (active_targets d))) \<subseteq> set (all_targets ?d0)"
    by (rule cleanup_deliver_keys) simp
  moreover have "all_targets ?d0 = all_targets d"
    by (simp add: all_targets_def)
  ultimately have "set (all_targets (cleanup_release (cleanup_deliver ?d0 (active_targets d)) (all_targets d))) = {}"
    unfolding cleanup_release_keys by auto
  then have "targets (cleanup_release (cleanup_deliver ?d0 (active_targets d)) (all_targets d)) = []"
    unfolding all_targets_def by simp
  then show ?thesis by (simp add: cleanup_unfold)
qed

lemma cleanup_of_empty:
  "targets d = [] \<Longrightarrow> \<not> m_cleaning d \<Longrightarrow> cleanup d = d"
  by (simp add: cleanup_def Let_def all_targets_def active_targets_def cleanup_deliver_def
      cleanup_release_def)

lemma exec_calls_events:
  "count_list (trace (foldl exec_call d cs)) (OnEvent T r p) = count_list (trace d) (OnEvent T r p)"
  by (induction cs arbitrary: d) (simp_all add: exec_call_events del: exec_call.simps)

lemma handler_events:
  "count_list (trace (handler d t r0 p0)) (OnEvent T r p) =
     count_list (trace d) (OnEvent T r p) + (if T = t \<and> r = r0 \<and> p = p0 then 1 else 0)"
  unfolding handler_unfold Let_def
  by (simp add: exec_call_events exec_calls_events del: exec_call.simps)

lemma deliver_events:
  "count_list (trace (cleanup_deliver d act)) (OnEvent T r p) =
     count_list (trace d) (OnEvent T r p) + (if r = Cleanup \<and> p = None then count_list act T else 0)"
  unfolding cleanup_deliver_def
  by (induction act arbitrary: d) (simp_all add: handler_events)

lemma release_events:
  "count_list (trace (cleanup_release (d :: 't::linorder Dispatcher) al)) (OnEvent T r p) =
     count_list (trace d) (OnEvent T r p)"
  unfolding cleanup_release_calls by (rule exec_calls_events)

lemma cleanup_events:
  "count_list (trace (cleanup d)) (OnEvent T r p) =
     count_list (trace d) (OnEvent T r p)
     + (if r = Cleanup \<and> p = None then count_list (active_targets d) T else 0)"
  by (simp add: cleanup_unfold release_events deliver_events)

lemma distinct_active: "distinct (all_targets d) \<Longrightarrow> distinct (active_targets d)"
  unfolding all_targets_def active_targets_def by (rule distinct_map_filter)

lemma count_distinct: "distinct xs \<Longrightarrow> count_list xs x = (if x \<in> set xs then 1 else 0)"
  by (induction xs) auto

lemma cleaning_call_owed:
  assumes "m_cleaning d \<and> on_target_present d \<and> owed d T = k"
  shows "m_cleaning (exec_call d c) \<and> on_target_present (exec_call d c) \<and> owed (exec_call d c) T = k"
  using assms exec_call_free [of d c T] exec_call_cleaning_keys [of d c]
  by (auto simp add: owed_def split: if_splits)

lemma cleanup_free_hooks:
  assumes "on_target_present d"
  shows "count_list (trace (cleanup d)) (OnFree T) =
           count_list (trace d) (OnFree T) + (if T \<in> set (all_targets d) then 1 else 0)"
proof -
  let ?P = "\<lambda>s. m_cleaning s \<and> on_target_present s \<and> owed s T = owed d T"
  have "?P (cleanup_release (cleanup_deliver (d\<lparr>m_cleaning := True\<rparr>) (active_targets d)) (all_targets d))"
    by (rule cleanup_scan_rule [where P = ?P])
       (erule cleaning_call_owed, simp add: owed_def, simp add: assms owed_def all_targets_def)
  then have "owed (cleanup d) T = owed d T"
    by (simp add: cleanup_unfold owed_def all_targets_def)
  then show ?thesis
    by (simp add: owed_def [of "cleanup d"] owed_def [of d] all_targets_def cleanup_empties)
qed

lemma exec_call_no_free:
  "\<not> on_target_present d \<and> count_list (trace d) (OnFree T) = k \<Longrightarrow>
   \<not> on_target_present (exec_call d c) \<and> count_list (trace (exec_call d c)) (OnFree T) = k"
  by (simp add: exec_call_no_hooks del: exec_call.simps)

lemma cleanup_free_plain:
  assumes "\<not> on_target_present d"
  shows "count_list (trace (cleanup d)) (OnFree T) = count_list (trace d) (OnFree T)"
proof -
  let ?P = "\<lambda>s. \<not> on_target_present s \<and> count_list (trace s) (OnFree T) = count_list (trace d) (OnFree T)"
  have "?P (cleanup_release (cleanup_deliver (d\<lparr>m_cleaning := True\<rparr>) (active_targets d)) (all_targets d))"
    by (rule cleanup_scan_rule [where P = ?P]) (erule exec_call_no_free, simp, simp add: assms)
  then show ?thesis by (simp add: cleanup_unfold)
qed

subsection \<open>The reuse rule on one sequence\<close>

lemma set_bind: "set (bind k fs) \<subseteq> insert (unbound k) (set fs)"
  by (induction fs) auto

lemma bound_once_bind: "bound_once fs \<Longrightarrow> bound_once (bind k fs)"
proof (induction fs)
  case Nil
  then show ?case by (simp add: unbound_def)
next
  case (Cons f fs)
  show ?case
  proof (cases "f = k \<or> f = - 1")
    case True
    then show ?thesis using Cons.prems by (auto simp add: unbound_def)
  next
    case False
    then have "f \<noteq> unbound k" by (auto simp add: unbound_def)
    then have "f \<notin> set (bind k fs)" using set_bind [of k fs] Cons.prems by auto
    then show ?thesis using False Cons by simp
  qed
qed

lemma count_bind: "bound_once fs \<Longrightarrow> count_list (bind k fs) (unbound k) = 1"
proof (induction fs)
  case Nil
  then show ?case by simp
next
  case (Cons f fs)
  show ?case
  proof (cases "f = k \<or> f = - 1")
    case True
    then have "unbound k \<notin> set fs" using Cons.prems by (auto simp add: unbound_def)
    then show ?thesis using True by (simp add: count_list_0_iff)
  next
    case False
    then have "f \<noteq> unbound k" by (auto simp add: unbound_def)
    then show ?thesis using False Cons by simp
  qed
qed

lemma less_not_ge: "less_zero x \<Longrightarrow> \<not> ge_zero x"
  by (cases x) simp_all

lemma TimerWatcher_start_eq:
  "snd (TimerWatcher_start w x y) =
     \<lparr>active = ge_zero x, after = (if less_zero x then Val (- 1) else x), repeat = (if less_zero y then Val 0 else y)\<rparr>"
  by (cases w) (simp add: TimerWatcher_start_def Let_def is_active_def stop_def
      start_watching_def stop_watching_def less_not_ge)

lemma rebind_timer_timers:
  "timers (snd (rebind (TimerWatcher new_TimerWatcher) approve_timer (as_TimerWatcher_start x y) ws)) =
     (case timers ws of
        [] \<Rightarrow> [snd (TimerWatcher_start new_TimerWatcher x y)]
      | t # ts \<Rightarrow> snd (TimerWatcher_start t x y) # ts)"
proof (induction ws)
  case Nil
  then show ?case by (simp add: timers_def)
next
  case (Cons w ws)
  then show ?case by (cases w) (simp_all add: timers_def split: list.splits)
qed

lemma rebind_other:
  assumes "\<And>w. approve w \<Longrightarrow> pr (snd (m w)) = pr w" and "pr (snd (m fresh)) = []"
  shows "concat (map pr (snd (rebind fresh approve m ws))) = concat (map pr ws)"
  by (induction ws) (simp_all add: assms)

lemma other_kinds:
  "fd_of (snd (as_TimerWatcher_start x y w)) = fd_of w"
  "signum_of (snd (as_TimerWatcher_start x y w)) = signum_of w"
  "timer_of (snd (as_IoWatcher_start f e w)) = timer_of w"
  "signum_of (snd (as_IoWatcher_start f e w)) = signum_of w"
  "timer_of (snd (as_SignalWatcher_start s w)) = timer_of w"
  "fd_of (snd (as_SignalWatcher_start s w)) = fd_of w"
  by (cases w; simp)+

lemma rebind_timer_others:
  "io_fds (snd (rebind (TimerWatcher new_TimerWatcher) approve_timer (as_TimerWatcher_start x y) ws)) = io_fds ws"
  "signums (snd (rebind (TimerWatcher new_TimerWatcher) approve_timer (as_TimerWatcher_start x y) ws)) = signums ws"
  unfolding io_fds_def signums_def
  by (rule rebind_other, simp add: other_kinds, simp)+

lemma fd_IoWatcher_start: "fileno (snd (IoWatcher_start w f e)) = unbound f"
  by (simp add: IoWatcher_start_def Let_def fileno_def unbound_def start_watching_def)

lemma signum_SignalWatcher_start: "signum (snd (SignalWatcher_start w s)) = unbound s"
  by (simp add: SignalWatcher_start_def Let_def unbound_def start_watching_def)

lemma rebind_io_fds:
  "io_fds (snd (rebind (IoWatcher new_IoWatcher) (approve_io f) (as_IoWatcher_start f e) ws)) =
     bind f (io_fds ws)"
proof (induction ws)
  case Nil
  then show ?case by (simp add: io_fds_def fd_IoWatcher_start)
next
  case (Cons w ws)
  then show ?case by (cases w) (simp_all add: io_fds_def fd_IoWatcher_start)
qed

lemma rebind_io_others:
  "timers (snd (rebind (IoWatcher new_IoWatcher) (approve_io f) (as_IoWatcher_start f e) ws)) = timers ws"
  "signums (snd (rebind (IoWatcher new_IoWatcher) (approve_io f) (as_IoWatcher_start f e) ws)) = signums ws"
  unfolding timers_def signums_def
  by (rule rebind_other, simp add: other_kinds, simp)+

lemma rebind_signal_signums:
  "signums (snd (rebind (SignalWatcher new_SignalWatcher) (approve_signal s) (as_SignalWatcher_start s) ws)) =
     bind s (signums ws)"
proof (induction ws)
  case Nil
  then show ?case by (simp add: signums_def signum_SignalWatcher_start)
next
  case (Cons w ws)
  then show ?case by (cases w) (simp_all add: signums_def signum_SignalWatcher_start)
qed

lemma rebind_signal_others:
  "timers (snd (rebind (SignalWatcher new_SignalWatcher) (approve_signal s) (as_SignalWatcher_start s) ws)) = timers ws"
  "io_fds (snd (rebind (SignalWatcher new_SignalWatcher) (approve_signal s) (as_SignalWatcher_start s) ws)) = io_fds ws"
  unfolding timers_def io_fds_def
  by (rule rebind_other, simp add: other_kinds, simp)+

subsection \<open>The reuse invariant\<close>

lemma watchers_watch_with:
  "watchers_of (snd (watch_with fresh approve m d T)) t =
     (if t = T then snd (rebind fresh approve m (watchers_of d T)) else watchers_of d t)"
  by (simp add: watchers_of_def [of "snd (watch_with fresh approve m d T)"] watch_with_find)
     (simp add: watchers_of_def)

lemma watchers_watch:
  "\<not> m_cleaning d \<Longrightarrow> watchers_of (snd (watch_timer d T x)) t =
     (if t = T
      then snd (rebind (TimerWatcher new_TimerWatcher) approve_timer (as_TimerWatcher_start x x) (watchers_of d T))
      else watchers_of d t)"
  "\<not> m_cleaning d \<Longrightarrow> watchers_of (snd (watch_io d T f e)) t =
     (if t = T
      then snd (rebind (IoWatcher new_IoWatcher) (approve_io f) (as_IoWatcher_start f e) (watchers_of d T))
      else watchers_of d t)"
  "\<not> m_cleaning d \<Longrightarrow> watchers_of (snd (watch_signal d T s)) t =
     (if t = T
      then snd (rebind (SignalWatcher new_SignalWatcher) (approve_signal s) (as_SignalWatcher_start s) (watchers_of d T))
      else watchers_of d t)"
  by (simp_all add: watch_timer_with watch_io_with watch_signal_with watchers_watch_with)

lemma reuse_inv_timer:
  "reuse_inv ws \<Longrightarrow>
   reuse_inv (snd (rebind (TimerWatcher new_TimerWatcher) approve_timer (as_TimerWatcher_start x y) ws))"
  by (auto simp add: reuse_inv_def rebind_timer_timers rebind_timer_others split: list.splits)

lemma reuse_inv_io:
  "reuse_inv ws \<Longrightarrow>
   reuse_inv (snd (rebind (IoWatcher new_IoWatcher) (approve_io f) (as_IoWatcher_start f e) ws))"
  by (simp add: reuse_inv_def rebind_io_fds rebind_io_others bound_once_bind)

lemma reuse_inv_signal:
  "reuse_inv ws \<Longrightarrow>
   reuse_inv (snd (rebind (SignalWatcher new_SignalWatcher) (approve_signal s) (as_SignalWatcher_start s) ws))"
  by (simp add: reuse_inv_def rebind_signal_signums rebind_signal_others bound_once_bind)

lemma timers_twice:
  assumes "length (timers ws) \<le> 1"
  shows "timers (snd (rebind (TimerWatcher new_TimerWatcher) approve_timer (as_TimerWatcher_start b b)
           (snd (rebind (TimerWatcher new_TimerWatcher) approve_timer (as_TimerWatcher_start a a) ws)))) =
         [\<lparr>active = ge_zero b, after = (if less_zero b then Val (- 1) else b), repeat = (if less_zero b then Val 0 else b)\<rparr>]"
  using assms by (auto simp add: rebind_timer_timers TimerWatcher_start_eq split: list.splits)

lemma reuse_inv_map:
  assumes "\<And>w. length (timer_of (g w)) = length (timer_of w)"
    and "\<And>w. fd_of (g w) = fd_of w" and "\<And>w. signum_of (g w) = signum_of w"
  shows "reuse_inv (map g ws) = reuse_inv ws"
proof -
  have "length (timers (map g ws)) = length (timers ws)"
    unfolding timers_def by (induction ws) (simp_all add: assms)
  moreover have "io_fds (map g ws) = io_fds ws"
    unfolding io_fds_def by (induction ws) (simp_all add: assms)
  moreover have "signums (map g ws) = signums ws"
    unfolding signums_def by (induction ws) (simp_all add: assms)
  ultimately show ?thesis by (simp add: reuse_inv_def)
qed

lemma reuse_inv_stop: "reuse_inv (map Watcher_stop ws) = reuse_inv ws"
  by (rule reuse_inv_map; case_tac w; simp add: stop_def stop_watching_def fileno_def)

lemma reuse_inv_start:
  "reuse_inv (map (\<lambda>w. if \<not> Watcher_is_active w then snd (Watcher_start w) else w) ws) = reuse_inv ws"
  by (rule reuse_inv_map; case_tac w; simp add: start_def start_watching_def fileno_def Let_def)

lemma reuse_inv_Nil [simp]: "reuse_inv []"
  by (simp add: reuse_inv_def timers_def io_fds_def signums_def)

lemma registry_inv_call: "registry_inv d \<Longrightarrow> registry_inv (exec_call d c)"
proof (cases c)
  case (WatchTimer t x)
  assume "registry_inv d"
  then show ?thesis using WatchTimer
    by (cases "m_cleaning d") (simp_all add: registry_inv_def watchers_watch_with reuse_inv_timer watch_timer_with)
next
  case (WatchIo t f e)
  assume "registry_inv d"
  then show ?thesis using WatchIo
    by (cases "m_cleaning d") (simp_all add: registry_inv_def watchers_watch_with reuse_inv_io watch_io_with)
next
  case (WatchSignal t s)
  assume "registry_inv d"
  then show ?thesis using WatchSignal
    by (cases "m_cleaning d") (simp_all add: registry_inv_def watchers_watch_with reuse_inv_signal watch_signal_with)
next
  case (EnableWatching t)
  assume "registry_inv d"
  then show ?thesis using EnableWatching
    by (simp add: registry_inv_def watchers_enable reuse_inv_start)
next
  case (DisableWatching t)
  assume "registry_inv d"
  then show ?thesis using DisableWatching
    by (simp add: registry_inv_def watchers_disable reuse_inv_stop)
next
  case (ReleaseWatching t)
  assume "registry_inv d"
  then show ?thesis using ReleaseWatching
    by (simp add: registry_inv_def watchers_release)
qed

lemma registry_inv_event: "registry_inv d \<Longrightarrow> registry_inv (call_back x d)"
  by (simp add: registry_inv_def)

lemma registry_inv_step: "registry_inv d \<Longrightarrow> registry_inv (exec_step d st)"
proof (cases st)
  case (Call c)
  assume "registry_inv d"
  then show ?thesis using Call by (simp add: registry_inv_call del: exec_call.simps)
next
  case (Fire t r p)
  assume "registry_inv d"
  then have "registry_inv (handler d t r p)"
    by (rule handler_rule [where P = registry_inv, rotated 2]) (erule registry_inv_call registry_inv_event)+
  then show ?thesis using Fire by simp
next
  case RunCleanup
  assume "registry_inv d"
  then have "registry_inv (d\<lparr>m_cleaning := True\<rparr>)"
    by (simp add: registry_inv_def watchers_of_def)
  then have "registry_inv (cleanup_release (cleanup_deliver (d\<lparr>m_cleaning := True\<rparr>) (active_targets d)) (all_targets d))"
    by (rule cleanup_scan_rule [where P = registry_inv, rotated 2]) (erule registry_inv_call registry_inv_event)+
  then show ?thesis using RunCleanup
    by (simp add: cleanup_unfold registry_inv_def watchers_of_def)
qed

lemma registry_inv_run: "registry_inv d \<Longrightarrow> registry_inv (run d steps)"
  unfolding run_def by (induction steps arbitrary: d) (simp_all add: registry_inv_step)

lemma registry_inv_init: "registry_inv (Dispatcher_plain h)" "registry_inv (Dispatcher_hooks h)"
  by (simp_all add: registry_inv_def watchers_of_def find_target_def Dispatcher_plain_def
      Dispatcher_hooks_def)

subsection \<open>Calls on other targets; results of watch\<close>

lemma call_frame:
  "call_target c \<noteq> T \<Longrightarrow> find_target (targets (exec_call d c)) T = find_target (targets d) T"
  by (cases c; cases "m_cleaning d")
     (simp_all add: watch_timer_with watch_io_with watch_signal_with watch_with_find
        enable_find enable_cleaning)

lemma calls_frame:
  "\<forall>c\<in>set cs. call_target c \<noteq> T \<Longrightarrow>
   find_target (targets (foldl exec_call d cs)) T = find_target (targets d) T"
  by (induction cs arbitrary: d) (simp_all add: call_frame del: exec_call.simps)

lemma handler_find:
  assumes "\<forall>c\<in>set (fst (on_target_event d T r p)). call_target c \<noteq> T"
  shows "find_target (targets (handler d T r p)) T =
           (if snd (on_target_event d T r p) \<and> \<not> m_cleaning d
            then map_option (map (\<lambda>w. snd (Watcher_start (Watcher_stop w)))) (find_target (targets d) T)
            else map_option (map Watcher_stop) (find_target (targets d) T))"
proof -
  let ?d2 = "foldl exec_call (call_back (OnEvent T r p) (snd (disable_watching d T)))
               (fst (on_target_event d T r p))"
  have d2: "find_target (targets ?d2) T = map_option (map Watcher_stop) (find_target (targets d) T)"
    using assms by (simp add: calls_frame)
  have h: "handler d T r p =
             (if snd (on_target_event d T r p) then snd (enable_watching ?d2 T) else ?d2)"
    by (simp add: handler_def Let_def)
  show ?thesis
  proof (cases "snd (on_target_event d T r p) \<and> \<not> m_cleaning d")
    case True
    then show ?thesis
      unfolding h by (simp add: enable_find d2 option.map_comp comp_def)
  next
    case False
    then show ?thesis
      unfolding h by (auto simp add: enable_cleaning d2)
  qed
qed

lemma inactive_quiescent: "T \<notin> set (active_targets d) \<Longrightarrow> quiescent d T"
proof (cases "find_target (targets d) T")
  case None
  then show ?thesis by (simp add: quiescent_def watchers_of_def)
next
  case (Some ws)
  assume a: "T \<notin> set (active_targets d)"
  from Some have "(T, ws) \<in> set (targets d)"
    by (simp add: find_target_def map_of_SomeD)
  with a have "\<not> list_ex Watcher_is_active ws"
    by (force simp add: active_targets_def)
  then show ?thesis using Some by (simp add: quiescent_def watchers_of_def list_ex_iff)
qed

lemma active_iff:
  assumes "distinct (all_targets d)"
  shows "T \<in> set (active_targets d) \<longleftrightarrow> \<not> quiescent d T"
proof
  assume "T \<in> set (active_targets d)"
  then obtain ws where m: "(T, ws) \<in> set (targets d)" and a: "list_ex Watcher_is_active ws"
    by (auto simp add: active_targets_def)
  from assms m have "find_target (targets d) T = Some ws"
    by (simp add: find_target_def all_targets_def)
  then show "\<not> quiescent d T" using a by (simp add: quiescent_def watchers_of_def list_ex_iff)
next
  assume "\<not> quiescent d T"
  then show "T \<in> set (active_targets d)" using inactive_quiescent [of T d] by auto
qed

lemma rebind_mem:
  assumes "\<And>w. approve w \<Longrightarrow> snd (m w) = v" and "snd (m fresh) = v"
  shows "v \<in> set (snd (rebind fresh approve m ws))"
  by (induction ws) (simp_all add: assms)

lemma rebind_fst:
  assumes "\<And>w. approve w \<Longrightarrow> fst (m w) = r" and "fst (m fresh) = r"
  shows "fst (rebind fresh approve m ws) = r"
  by (induction ws) (simp_all add: assms)

lemma IoWatcher_start_eq:
  "snd (IoWatcher_start w f e) =
     \<lparr>active = (0 \<le> f \<and> 0 < e), fd = unbound f, events = (if e < 0 then 0 else e)\<rparr>"
  by (cases w) (auto simp add: IoWatcher_start_def Let_def is_active_def stop_def
      start_watching_def stop_watching_def unbound_def)

lemma SignalWatcher_start_eq:
  "snd (SignalWatcher_start w s) = \<lparr>active = (0 \<le> s), signum = unbound s\<rparr>"
  by (cases w) (auto simp add: SignalWatcher_start_def Let_def is_active_def stop_def
      start_watching_def stop_watching_def unbound_def)

lemma start_fst:
  "fst (TimerWatcher_start tw x y) = ge_zero x"
  "fst (IoWatcher_start iw f e) = (0 \<le> f \<and> 0 < e)"
  "fst (SignalWatcher_start sw s) = (0 \<le> s)"
  by (auto simp add: TimerWatcher_start_def IoWatcher_start_def SignalWatcher_start_def Let_def
      is_active_def stop_def start_watching_def stop_watching_def dest: less_not_ge)

lemma approved_start:
  "approve_timer w \<Longrightarrow> fst (as_TimerWatcher_start x y w) = ge_zero x"
  "approve_timer w \<Longrightarrow> snd (as_TimerWatcher_start x y w) =
     TimerWatcher \<lparr>active = ge_zero x, after = (if less_zero x then Val (- 1) else x), repeat = (if less_zero y then Val 0 else y)\<rparr>"
  "approve_io f0 w \<Longrightarrow> fst (as_IoWatcher_start f e w) = (0 \<le> f \<and> 0 < e)"
  "approve_io f0 w \<Longrightarrow> snd (as_IoWatcher_start f e w) =
     IoWatcher \<lparr>active = (0 \<le> f \<and> 0 < e), fd = unbound f, events = (if e < 0 then 0 else e)\<rparr>"
  "approve_signal s0 w \<Longrightarrow> fst (as_SignalWatcher_start s w) = (0 \<le> s)"
  "approve_signal s0 w \<Longrightarrow> snd (as_SignalWatcher_start s w) =
     SignalWatcher \<lparr>active = (0 \<le> s), signum = unbound s\<rparr>"
  by (cases w; simp add: start_fst TimerWatcher_start_eq IoWatcher_start_eq SignalWatcher_start_eq)+

lemma watch_timer_result:
  assumes "\<not> m_cleaning d"
  shows "fst (watch_timer d T x) = ge_zero x"
    and "TimerWatcher \<lparr>active = ge_zero x, after = (if less_zero x then Val (- 1) else x),
           repeat = (if less_zero x then Val 0 else x)\<rparr> \<in> set (watchers_of (snd (watch_timer d T x)) T)"
proof -
  have "fst (rebind (TimerWatcher new_TimerWatcher) approve_timer (as_TimerWatcher_start x x)
          (watchers_of d T)) = ge_zero x"
    by (rule rebind_fst) (simp_all add: approved_start start_fst TimerWatcher_start_eq IoWatcher_start_eq SignalWatcher_start_eq)
  then show "fst (watch_timer d T x) = ge_zero x"
    using assms by (simp add: watch_timer_with watch_with_fst)
  have "TimerWatcher \<lparr>active = ge_zero x, after = (if less_zero x then Val (- 1) else x),
           repeat = (if less_zero x then Val 0 else x)\<rparr>
        \<in> set (snd (rebind (TimerWatcher new_TimerWatcher) approve_timer (as_TimerWatcher_start x x)
          (watchers_of d T)))"
    by (rule rebind_mem) (simp_all add: approved_start start_fst TimerWatcher_start_eq IoWatcher_start_eq SignalWatcher_start_eq)
  then show "TimerWatcher \<lparr>active = ge_zero x, after = (if less_zero x then Val (- 1) else x),
           repeat = (if less_zero x then Val 0 else x)\<rparr> \<in> set (watchers_of (snd (watch_timer d T x)) T)"
    using assms by (simp add: watchers_watch)
qed

lemma watch_io_result:
  assumes "\<not> m_cleaning d"
  shows "fst (watch_io d T f e) = (0 \<le> f \<and> 0 < e)"
    and "IoWatcher \<lparr>active = (0 \<le> f \<and> 0 < e), fd = unbound f, events = (if e < 0 then 0 else e)\<rparr>
           \<in> set (watchers_of (snd (watch_io d T f e)) T)"
proof -
  have "fst (rebind (IoWatcher new_IoWatcher) (approve_io f) (as_IoWatcher_start f e)
          (watchers_of d T)) = (0 \<le> f \<and> 0 < e)"
    by (rule rebind_fst) (simp_all add: approved_start start_fst TimerWatcher_start_eq IoWatcher_start_eq SignalWatcher_start_eq)
  then show "fst (watch_io d T f e) = (0 \<le> f \<and> 0 < e)"
    using assms by (simp add: watch_io_with watch_with_fst)
  have "IoWatcher \<lparr>active = (0 \<le> f \<and> 0 < e), fd = unbound f, events = (if e < 0 then 0 else e)\<rparr>
        \<in> set (snd (rebind (IoWatcher new_IoWatcher) (approve_io f) (as_IoWatcher_start f e)
          (watchers_of d T)))"
    by (rule rebind_mem) (simp_all add: approved_start start_fst TimerWatcher_start_eq IoWatcher_start_eq SignalWatcher_start_eq)
  then show "IoWatcher \<lparr>active = (0 \<le> f \<and> 0 < e), fd = unbound f, events = (if e < 0 then 0 else e)\<rparr>
           \<in> set (watchers_of (snd (watch_io d T f e)) T)"
    using assms by (simp add: watchers_watch)
qed

lemma watch_signal_result:
  assumes "\<not> m_cleaning d"
  shows "fst (watch_signal d T s) = (0 \<le> s)"
    and "SignalWatcher \<lparr>active = (0 \<le> s), signum = unbound s\<rparr>
           \<in> set (watchers_of (snd (watch_signal d T s)) T)"
proof -
  have "fst (rebind (SignalWatcher new_SignalWatcher) (approve_signal s) (as_SignalWatcher_start s)
          (watchers_of d T)) = (0 \<le> s)"
    by (rule rebind_fst) (simp_all add: approved_start start_fst TimerWatcher_start_eq IoWatcher_start_eq SignalWatcher_start_eq)
  then show "fst (watch_signal d T s) = (0 \<le> s)"
    using assms by (simp add: watch_signal_with watch_with_fst)
  have "SignalWatcher \<lparr>active = (0 \<le> s), signum = unbound s\<rparr>
        \<in> set (snd (rebind (SignalWatcher new_SignalWatcher) (approve_signal s) (as_SignalWatcher_start s)
          (watchers_of d T)))"
    by (rule rebind_mem) (simp_all add: approved_start start_fst TimerWatcher_start_eq IoWatcher_start_eq SignalWatcher_start_eq)
  then show "SignalWatcher \<lparr>active = (0 \<le> s), signum = unbound s\<rparr>
           \<in> set (watchers_of (snd (watch_signal d T s)) T)"
    using assms by (simp add: watchers_watch)
qed

subsection \<open>The example registry\<close>

lemma scenario_reached:
  "scenario True h = run (Dispatcher_hooks h)
     [Call (WatchTimer 1 (Val 1)), Call (WatchTimer 2 (Val 3)), Call (WatchSignal 3 2),
      Call (WatchIo 1 5 Read), Call (WatchTimer 4 (Val (- 1)))]"
  "scenario False h = run (Dispatcher_plain h)
     [Call (WatchTimer 1 (Val 1)), Call (WatchTimer 2 (Val 3)), Call (WatchSignal 3 2),
      Call (WatchIo 1 5 Read), Call (WatchTimer 4 (Val (- 1)))]"
  by (simp_all add: scenario_def run_def run_defs Read_def)

subsection \<open>Distinct keys\<close>

lemma keys_insert_list:
  "t \<notin> set (map fst m) \<Longrightarrow> distinct (map fst m) \<Longrightarrow> distinct (map fst (insert_target t m))"
  unfolding insert_target_def by (induction m) (auto simp add: set_insort_key)

lemma distinct_erase: "distinct (map fst m) \<Longrightarrow> distinct (map fst (erase_target t m))"
  unfolding erase_target_def by (rule distinct_map_filter)

lemma distinct_setup:
  "distinct (all_targets d) \<Longrightarrow> distinct (all_targets (snd (setup_watching fresh approve T d)))"
  by (auto simp add: setup_watching_def Let_def all_targets_def call_back_def find_None_iff
      keys_insert_list simp del: set_map split: option.splits)

lemma distinct_release:
  "distinct (all_targets d) \<Longrightarrow> distinct (all_targets (snd (release_watching d T)))"
  by (simp add: release_watching_def Let_def all_targets_def call_back_def distinct_erase
      split: option.splits)

lemma distinct_call: "distinct (all_targets d) \<Longrightarrow> distinct (all_targets (exec_call d c))"
  by (cases c)
     (simp_all add: watch_timer_def watch_io_def watch_signal_def distinct_setup distinct_release)

lemma distinct_step: "distinct (all_targets d) \<Longrightarrow> distinct (all_targets (exec_step d st))"
proof (cases st)
  case (Call c)
  assume "distinct (all_targets d)"
  then show ?thesis using Call by (simp add: distinct_call del: exec_call.simps)
next
  case (Fire t r p)
  assume "distinct (all_targets d)"
  then have "distinct (all_targets (handler d t r p))"
    by (rule handler_rule [where P = "\<lambda>s. distinct (all_targets s)", rotated 2])
       (erule distinct_call, simp)
  then show ?thesis using Fire by simp
next
  case RunCleanup
  then show ?thesis by (simp add: all_targets_def cleanup_empties)
qed

lemma distinct_run: "distinct (all_targets d) \<Longrightarrow> distinct (all_targets (run d steps))"
  unfolding run_def by (induction steps arbitrary: d) (simp_all add: distinct_step)

subsection \<open>States reached by a run\<close>

lemma cleaning_step: "\<not> m_cleaning d \<Longrightarrow> \<not> m_cleaning (exec_step d st)"
  by (cases st) (simp_all del: exec_call.simps)

lemma run_not_cleaning: "\<not> m_cleaning d \<Longrightarrow> \<not> m_cleaning (run d steps)"
  unfolding run_def by (induction steps arbitrary: d) (simp_all add: cleaning_step)

text \<open>Between two steps no cleanup is in progress, the keys of the registry are
  distinct and every sequence satisfies the reuse invariant.\<close>

lemma reached_plain:
  "\<not> m_cleaning (run (Dispatcher_plain h) steps)"
  "distinct (all_targets (run (Dispatcher_plain h) steps))"
  "registry_inv (run (Dispatcher_plain h) steps)"
proof -
  show "\<not> m_cleaning (run (Dispatcher_plain h) steps)"
    by (rule run_not_cleaning) (simp add: Dispatcher_plain_def)
  show "distinct (all_targets (run (Dispatcher_plain h) steps))"
    by (rule distinct_run) (simp add: Dispatcher_plain_def all_targets_def)
  show "registry_inv (run (Dispatcher_plain h) steps)"
    by (rule registry_inv_run) (rule registry_inv_init)
qed

lemma reached_hooks:
  "\<not> m_cleaning (run (Dispatcher_hooks h) steps)"
  "distinct (all_targets (run (Dispatcher_hooks h) steps))"
  "registry_inv (run (Dispatcher_hooks h) steps)"
proof -
  show "\<not> m_cleaning (run (Dispatcher_hooks h) steps)"
    by (rule run_not_cleaning) (simp add: Dispatcher_hooks_def)
  show "distinct (all_targets (run (Dispatcher_hooks h) steps))"
    by (rule distinct_run) (simp add: Dispatcher_hooks_def all_targets_def)
  show "registry_inv (run (Dispatcher_hooks h) steps)"
    by (rule registry_inv_run) (rule registry_inv_init)
qed

subsection \<open>The example registry, field by field\<close>

lemmas scenario_eval =
  scenario_def hello_def rearm_def insist_def Read_def Timer_def Signal_def Cleanup_def
  find_target_def all_targets_def active_targets_def watchers_of_def quiescent_def
  is_active_def stop_def start_def start_watching_def stop_watching_def Let_def

lemma scenario_fields:
  "m_cleaning (scenario hooks h) = False"
  "on_target_present (scenario hooks h) = hooks"
  "on_target_event (scenario hooks h) = h"
  "all_targets (scenario hooks h) = [1, 2, 3, 4]"
  "trace (scenario True h) = [OnApply 1, OnApply 2, OnApply 3, OnApply 4]"
  "trace (scenario False h) = []"
  by (simp_all add: scenario_def all_targets_def)

lemma scenario_find:
  "find_target (targets (scenario hooks h)) 1 =
     Some [TimerWatcher \<lparr>active = True, after = Val 1, repeat = Val 1\<rparr>,
           IoWatcher \<lparr>active = True, fd = 5, events = 1\<rparr>]"
  "find_target (targets (scenario hooks h)) 2 =
     Some [TimerWatcher \<lparr>active = True, after = Val 3, repeat = Val 3\<rparr>]"
  "find_target (targets (scenario hooks h)) 3 = Some [SignalWatcher \<lparr>active = True, signum = 2\<rparr>]"
  "find_target (targets (scenario hooks h)) 4 =
     Some [TimerWatcher \<lparr>active = False, after = Val (- 1), repeat = Val 0\<rparr>]"
  by (simp_all add: scenario_def find_target_def)

text \<open>The trace of a run: two registrations (the second one fails to arm), a timer
  event, a release, a new registration, and the cleanup.\<close>

lemma run_trace_example:
  "trace (run (Dispatcher_hooks rearm)
        [Call (WatchTimer 1 (Val 1)), Call (WatchSignal 2 (- 1)), Fire 1 Timer None,
         Call (ReleaseWatching 1), Call (WatchTimer 1 (Val 1)), RunCleanup]) =
       [OnApply (1::nat), OnApply 2, OnEvent 1 Timer None, OnFree 1, OnApply 1,
        OnEvent 1 Cleanup None, OnFree 1, OnFree 2]"
  by (simp add: run_def run_defs rearm_def handler_def cleanup_def cleanup_deliver_def
      cleanup_release_def all_targets_def active_targets_def)

section \<open>The claims\<close>

subsection \<open>Event delivery\<close>

text \<open>
  Claim C1, as the code has it. For every event delivered to a target \<open>T\<close>, \<open>handler\<close>
  invokes the user handler on the dispatcher that \<open>disable_watching\<close> leaves: there
  every watcher of \<open>T\<close>, not only the firing one, is stopped, each still in its place;
  \<open>handler\<close> then returns what the user handler left, after \<open>enable_watching\<close> when
  the user handler returned true. If it returns true and no cleanup is in progress,
  every watcher of \<open>T\<close> is active afterwards (if the user handler made no call about
  \<open>T\<close> itself, these are exactly the watchers \<open>T\<close> had, each restarted). If cleanup is
  in progress, every watcher of \<open>T\<close> is stopped afterwards, also after a true return.
  If it returns false, nothing is re-armed by the dispatcher: when the user handler made
  no call about \<open>T\<close> itself, \<open>T\<close> keeps its entry and its watchers, each stopped.
\<close>

theorem delivery_stops_then_rearms:
  "handler d T revents payload =
     (if snd (on_target_event d T revents payload)
      then snd (enable_watching (invoke_user (snd (disable_watching d T)) T revents payload) T)
      else invoke_user (snd (disable_watching d T)) T revents payload)
   \<and> quiescent (snd (disable_watching d T)) T
   \<and> find_target (targets (snd (disable_watching d T))) T =
       map_option (map Watcher_stop) (find_target (targets d) T)
   \<and> (\<not> m_cleaning d \<and> snd (on_target_event d T revents payload) \<longrightarrow>
        (\<forall>w\<in>set (watchers_of (handler d T revents payload) T). Watcher_is_active w))
   \<and> (\<not> m_cleaning d \<and> snd (on_target_event d T revents payload)
        \<and> (\<forall>c\<in>set (fst (on_target_event d T revents payload)). call_target c \<noteq> T) \<longrightarrow>
        find_target (targets (handler d T revents payload)) T =
          map_option (map (\<lambda>w. snd (Watcher_start (Watcher_stop w)))) (find_target (targets d) T))
   \<and> (m_cleaning d \<longrightarrow> quiescent (handler d T revents payload) T)
   \<and> (m_cleaning d
        \<and> (\<forall>c\<in>set (fst (on_target_event d T revents payload)). call_target c \<noteq> T) \<longrightarrow>
        find_target (targets (handler d T revents payload)) T =
          map_option (map Watcher_stop) (find_target (targets d) T))
   \<and> (\<not> snd (on_target_event d T revents payload)
        \<and> (\<forall>c\<in>set (fst (on_target_event d T revents payload)). call_target c \<noteq> T) \<longrightarrow>
        find_target (targets (handler d T revents payload)) T =
          map_option (map Watcher_stop) (find_target (targets d) T))"
proof -
  have eq: "handler d T revents payload =
     (if snd (on_target_event d T revents payload)
      then snd (enable_watching (invoke_user (snd (disable_watching d T)) T revents payload) T)
      else invoke_user (snd (disable_watching d T)) T revents payload)"
    by (simp add: handler_def invoke_user_def Let_def)
  have rest: "quiescent (snd (disable_watching d T)) T
   \<and> find_target (targets (snd (disable_watching d T))) T =
       map_option (map Watcher_stop) (find_target (targets d) T)
   \<and> (\<not> m_cleaning d \<and> snd (on_target_event d T revents payload) \<longrightarrow>
        (\<forall>w\<in>set (watchers_of (handler d T revents payload) T). Watcher_is_active w))
   \<and> (\<not> m_cleaning d \<and> snd (on_target_event d T revents payload)
        \<and> (\<forall>c\<in>set (fst (on_target_event d T revents payload)). call_target c \<noteq> T) \<longrightarrow>
        find_target (targets (handler d T revents payload)) T =
          map_option (map (\<lambda>w. snd (Watcher_start (Watcher_stop w)))) (find_target (targets d) T))
   \<and> (m_cleaning d \<longrightarrow> quiescent (handler d T revents payload) T)
   \<and> (m_cleaning d
        \<and> (\<forall>c\<in>set (fst (on_target_event d T revents payload)). call_target c \<noteq> T) \<longrightarrow>
        find_target (targets (handler d T revents payload)) T =
          map_option (map Watcher_stop) (find_target (targets d) T))
   \<and> (\<not> snd (on_target_event d T revents payload)
        \<and> (\<forall>c\<in>set (fst (on_target_event d T revents payload)). call_target c \<noteq> T) \<longrightarrow>
        find_target (targets (handler d T revents payload)) T =
          map_option (map Watcher_stop) (find_target (targets d) T))"
    using handler_true_active [of d T revents payload] handler_find [of d T revents payload]
      cleaning_handler_quiescent [of d T revents payload]
    by (simp add: quiescent_disable)
  show ?thesis by (rule conjI [OF eq rest])
qed

theorem delivery_stops_then_rearms_witness:
  "handler (scenario False hello) 1 Timer None =
       snd (enable_watching (invoke_user (snd (disable_watching (scenario False hello) 1)) 1 Timer None) 1)
   \<and> handler (scenario False hello) 3 Signal (Some 2) =
       invoke_user (snd (disable_watching (scenario False hello) 3)) 3 Signal (Some 2)
   \<and> \<not> m_cleaning (scenario False hello)
   \<and> snd (on_target_event (scenario False hello) 1 Timer None)
   \<and> fst (on_target_event (scenario False hello) 1 Timer None) = []
   \<and> quiescent (snd (disable_watching (scenario False hello) 1)) 1
   \<and> find_target (targets (snd (disable_watching (scenario False hello) 1))) 1 =
       Some [TimerWatcher \<lparr>active = False, after = Val 1, repeat = Val 1\<rparr>,
             IoWatcher \<lparr>active = False, fd = 5, events = 1\<rparr>]
   \<and> list_all Watcher_is_active (watchers_of (handler (scenario False hello) 1 Timer None) 1)
   \<and> find_target (targets (handler (scenario False hello) 1 Timer None)) 1 =
       Some [TimerWatcher \<lparr>active = True, after = Val 1, repeat = Val 1\<rparr>,
             IoWatcher \<lparr>active = True, fd = 5, events = 1\<rparr>]
   \<and> \<not> snd (on_target_event (scenario False hello) 3 Signal (Some 2))
   \<and> find_target (targets (handler (scenario False hello) 3 Signal (Some 2))) 3 =
       Some [SignalWatcher \<lparr>active = False, signum = 2\<rparr>]
   \<and> m_cleaning ((scenario False rearm)\<lparr>m_cleaning := True\<rparr>)
   \<and> snd (on_target_event ((scenario False rearm)\<lparr>m_cleaning := True\<rparr>) 2 Cleanup None)
   \<and> quiescent (handler ((scenario False rearm)\<lparr>m_cleaning := True\<rparr>) 2 Cleanup None) 2
   \<and> find_target (targets (handler ((scenario False rearm)\<lparr>m_cleaning := True\<rparr>) 2 Cleanup None)) 2 =
       Some [TimerWatcher \<lparr>active = False, after = Val 3, repeat = Val 3\<rparr>]"
proof -
  note a = delivery_stops_then_rearms [of "scenario False hello" 1 Timer None]
  note b = delivery_stops_then_rearms [of "scenario False hello" 3 Signal "Some 2"]
  note c = delivery_stops_then_rearms [of "(scenario False rearm)\<lparr>m_cleaning := True\<rparr>" 2 Cleanup None]
  have e1: "handler (scenario False hello) 1 Timer None =
       snd (enable_watching (invoke_user (snd (disable_watching (scenario False hello) 1)) 1 Timer None) 1)"
    using a [THEN conjunct1] by (simp add: scenario_fields hello_def Timer_def)
  have e2: "handler (scenario False hello) 3 Signal (Some 2) =
       invoke_user (snd (disable_watching (scenario False hello) 3)) 3 Signal (Some 2)"
    using b [THEN conjunct1] by (simp add: scenario_fields hello_def Timer_def Signal_def)
  have r: "\<not> m_cleaning (scenario False hello)
   \<and> snd (on_target_event (scenario False hello) 1 Timer None)
   \<and> fst (on_target_event (scenario False hello) 1 Timer None) = []
   \<and> quiescent (snd (disable_watching (scenario False hello) 1)) 1
   \<and> find_target (targets (snd (disable_watching (scenario False hello) 1))) 1 =
       Some [TimerWatcher \<lparr>active = False, after = Val 1, repeat = Val 1\<rparr>,
             IoWatcher \<lparr>active = False, fd = 5, events = 1\<rparr>]
   \<and> list_all Watcher_is_active (watchers_of (handler (scenario False hello) 1 Timer None) 1)
   \<and> find_target (targets (handler (scenario False hello) 1 Timer None)) 1 =
       Some [TimerWatcher \<lparr>active = True, after = Val 1, repeat = Val 1\<rparr>,
             IoWatcher \<lparr>active = True, fd = 5, events = 1\<rparr>]
   \<and> \<not> snd (on_target_event (scenario False hello) 3 Signal (Some 2))
   \<and> find_target (targets (handler (scenario False hello) 3 Signal (Some 2))) 3 =
       Some [SignalWatcher \<lparr>active = False, signum = 2\<rparr>]
   \<and> m_cleaning ((scenario False rearm)\<lparr>m_cleaning := True\<rparr>)
   \<and> snd (on_target_event ((scenario False rearm)\<lparr>m_cleaning := True\<rparr>) 2 Cleanup None)
   \<and> quiescent (handler ((scenario False rearm)\<lparr>m_cleaning := True\<rparr>) 2 Cleanup None) 2
   \<and> find_target (targets (handler ((scenario False rearm)\<lparr>m_cleaning := True\<rparr>) 2 Cleanup None)) 2 =
       Some [TimerWatcher \<lparr>active = False, after = Val 3, repeat = Val 3\<rparr>]"
    using a [THEN conjunct2] b [THEN conjunct2] c [THEN conjunct2]
      scenario_find [of False hello] scenario_find [of False rearm]
    by (simp add: scenario_fields hello_def rearm_def Timer_def Signal_def list_all_iff
        is_active_def stop_def start_def start_watching_def stop_watching_def Let_def)
  show ?thesis by (rule conjI [OF e1 conjI [OF e2 r]])
qed

text \<open>
  The claim as it was stated fails twice. For the event that \<open>cleanup\<close> delivers the flag
  \<open>m_cleaning\<close> is set, \<open>enable_watching\<close> refuses, and the watchers stay stopped
  although the user handler returned true. And a user handler that releases its target
  and returns false leaves no watcher of the target in the registry.
\<close>

theorem delivery_always_rearms_counterexample:
  "active_targets (scenario False rearm) = [1, 2, 3]
   \<and> m_cleaning ((scenario False rearm)\<lparr>m_cleaning := True\<rparr>)
   \<and> snd (on_target_event ((scenario False rearm)\<lparr>m_cleaning := True\<rparr>) 1 Cleanup None)
   \<and> find_target (targets (handler ((scenario False rearm)\<lparr>m_cleaning := True\<rparr>) 1 Cleanup None)) 1 =
       Some [TimerWatcher \<lparr>active = False, after = Val 1, repeat = Val 1\<rparr>,
             IoWatcher \<lparr>active = False, fd = 5, events = 1\<rparr>]
   \<and> \<not> m_cleaning (scenario False quit)
   \<and> \<not> snd (on_target_event (scenario False quit) 1 Timer None)
   \<and> find_target (targets (scenario False quit)) 1 =
       Some [TimerWatcher \<lparr>active = True, after = Val 1, repeat = Val 1\<rparr>,
             IoWatcher \<lparr>active = True, fd = 5, events = 1\<rparr>]
   \<and> find_target (targets (handler (scenario False quit) 1 Timer None)) 1 = None"
  by (simp add: scenario_def rearm_def quit_def handler_def run_defs active_targets_def)

subsection \<open>What cleanup delivers and frees\<close>

text \<open>
  Claim C2. \<open>cleanup\<close> invokes the user handler with \<open>Cleanup\<close> exactly once for each
  target that has an active watcher when \<open>cleanup\<close> starts and not at all for any other
  target (and with no other event); every target of the registry gets exactly one
  \<open>on_free\<close> call when the hooks are configured (none otherwise, and none for a target
  that is not registered); the registry is empty afterwards. The keys of the registry
  are distinct, as those of a \<open>std::map\<close> are.
\<close>

theorem cleanup_delivers_and_frees:
  "(distinct (all_targets d) \<longrightarrow>
      count_list (trace (cleanup d)) (OnEvent T revents payload) =
        count_list (trace d) (OnEvent T revents payload)
        + (if revents = Cleanup \<and> payload = None \<and> \<not> quiescent d T then 1 else 0))
   \<and> count_list (trace (cleanup d)) (OnFree T) =
        count_list (trace d) (OnFree T)
        + (if on_target_present d \<and> T \<in> set (all_targets d) then 1 else 0)
   \<and> targets (cleanup d) = []"
proof -
  have "count_list (trace (cleanup d)) (OnEvent T revents payload) =
        count_list (trace d) (OnEvent T revents payload)
        + (if revents = Cleanup \<and> payload = None \<and> \<not> quiescent d T then 1 else 0)"
    if "distinct (all_targets d)"
    using that active_iff [OF that, of T] distinct_active [OF that]
    by (simp add: cleanup_events count_distinct)
  moreover have "count_list (trace (cleanup d)) (OnFree T) =
        count_list (trace d) (OnFree T)
        + (if on_target_present d \<and> T \<in> set (all_targets d) then 1 else 0)"
    using cleanup_free_hooks [of d T] cleanup_free_plain [of d T] by (cases "on_target_present d") simp_all
  ultimately show ?thesis by (simp add: cleanup_empties)
qed

theorem cleanup_delivers_and_frees_witness:
  "distinct (all_targets (scenario True insist))
   \<and> \<not> quiescent (scenario True insist) 1
   \<and> count_list (trace (cleanup (scenario True insist))) (OnEvent 1 Cleanup None) = 1
   \<and> quiescent (scenario True insist) 4
   \<and> count_list (trace (cleanup (scenario True insist))) (OnEvent 4 Cleanup None) = 0
   \<and> count_list (trace (cleanup (scenario True insist))) (OnFree 1) = 1
   \<and> count_list (trace (cleanup (scenario True insist))) (OnFree 4) = 1
   \<and> count_list (trace (cleanup (scenario True insist))) (OnFree 5) = 0
   \<and> targets (cleanup (scenario True insist)) = []"
  using cleanup_delivers_and_frees [of "scenario True insist" 1 Cleanup None]
    cleanup_delivers_and_frees [of "scenario True insist" 4 Cleanup None]
    cleanup_delivers_and_frees [of "scenario True insist" 5 Cleanup None]
  by (simp add: scenario_eval)

subsection \<open>Operations during cleanup\<close>

text \<open>
  Claim C3, as the code has it. While \<open>m_cleaning\<close> is set, \<open>watch_timer\<close>,
  \<open>watch_io\<close>, \<open>watch_signal\<close> and \<open>enable_watching\<close> return false and leave the
  dispatcher unchanged. \<open>disable_watching\<close> and \<open>release_watching\<close> do not test the
  flag: they return whether the target is registered, and stop, respectively remove,
  its watchers (\<open>cleanup\<close> itself releases every target through \<open>release_watching\<close>
  while the flag is set).
\<close>

theorem cleaning_refuses_registration:
  "m_cleaning d \<Longrightarrow>
     watch_timer d T x = (False, d) \<and> watch_io d T f e = (False, d)
     \<and> watch_signal d T s = (False, d) \<and> enable_watching d T = (False, d)
     \<and> fst (disable_watching d T) = (T \<in> set (all_targets d))
     \<and> find_target (targets (snd (disable_watching d T))) T =
         map_option (map Watcher_stop) (find_target (targets d) T)
     \<and> quiescent (snd (disable_watching d T)) T
     \<and> fst (release_watching d T) = (T \<in> set (all_targets d))
     \<and> T \<notin> set (all_targets (snd (release_watching d T)))"
  by (simp add: watch_timer_def watch_io_def watch_signal_def enable_watching_def
      disable_fst release_fst all_targets_find quiescent_disable)

theorem cleaning_refuses_registration_witness:
  "m_cleaning ((scenario False hello)\<lparr>m_cleaning := True\<rparr>)
   \<and> \<not> fst (watch_timer ((scenario False hello)\<lparr>m_cleaning := True\<rparr>) 9 (Val 1))
   \<and> targets (snd (watch_timer ((scenario False hello)\<lparr>m_cleaning := True\<rparr>) 9 (Val 1)))
       = targets (scenario False hello)
   \<and> \<not> fst (enable_watching ((scenario False hello)\<lparr>m_cleaning := True\<rparr>) 4)
   \<and> targets (snd (enable_watching ((scenario False hello)\<lparr>m_cleaning := True\<rparr>) 4))
       = targets (scenario False hello)
   \<and> fst (disable_watching ((scenario False hello)\<lparr>m_cleaning := True\<rparr>) 3)
   \<and> find_target (targets (snd (disable_watching ((scenario False hello)\<lparr>m_cleaning := True\<rparr>) 3))) 3
       = Some [SignalWatcher \<lparr>active = False, signum = 2\<rparr>]
   \<and> fst (release_watching ((scenario False hello)\<lparr>m_cleaning := True\<rparr>) 3)
   \<and> 3 \<notin> set (all_targets (snd (release_watching ((scenario False hello)\<lparr>m_cleaning := True\<rparr>) 3)))"
  using cleaning_refuses_registration [of "(scenario False hello)\<lparr>m_cleaning := True\<rparr>" 9 "Val 1" 5 1 2]
    cleaning_refuses_registration [of "(scenario False hello)\<lparr>m_cleaning := True\<rparr>" 4 "Val 1" 5 1 2]
    cleaning_refuses_registration [of "(scenario False hello)\<lparr>m_cleaning := True\<rparr>" 3 "Val 1" 5 1 2]
  by (simp add: scenario_def find_target_def all_targets_def is_active_def stop_def stop_watching_def)

text \<open>The claim as it was stated fails: with \<open>m_cleaning\<close> set, \<open>release_watching\<close> and
  \<open>disable_watching\<close> succeed on a registered target and change the registry.\<close>

theorem cleaning_refuses_all_counterexample:
  "m_cleaning ((scenario False hello)\<lparr>m_cleaning := True\<rparr>)
   \<and> fst (release_watching ((scenario False hello)\<lparr>m_cleaning := True\<rparr>) 1)
   \<and> targets (snd (release_watching ((scenario False hello)\<lparr>m_cleaning := True\<rparr>) 1))
       \<noteq> targets ((scenario False hello)\<lparr>m_cleaning := True\<rparr>)
   \<and> fst (disable_watching ((scenario False hello)\<lparr>m_cleaning := True\<rparr>) 1)
   \<and> targets (snd (disable_watching ((scenario False hello)\<lparr>m_cleaning := True\<rparr>) 1))
       \<noteq> targets ((scenario False hello)\<lparr>m_cleaning := True\<rparr>)"
  by (simp add: scenario_def run_defs)

subsection \<open>A watch that fails to arm\<close>

text \<open>
  Claim C4, as the code has it. A \<open>watch_timer\<close>, \<open>watch_io\<close> or \<open>watch_signal\<close> call
  that returns false because cleanup is in progress leaves the dispatcher unchanged.
  When it returns false otherwise (the arm attempt failed: a negative timeout or a NaN,
  a negative descriptor, no positive event mask, a negative signal), the watcher is in
  the registry all the same: the target is registered after the call and its sequence
  holds a stopped watcher of the requested kind, one that the request approves.
  \<open>setup_watching\<close> has inserted the entry and the watcher before \<open>start\<close> is tried,
  and nothing removes them.
\<close>

theorem failed_watch_keeps_watcher:
  "(m_cleaning d \<longrightarrow>
      watch_timer d T x = (False, d) \<and> watch_io d T f e = (False, d) \<and> watch_signal d T s = (False, d))
   \<and> (\<not> m_cleaning d \<and> \<not> fst (watch_timer d T x) \<longrightarrow>
        T \<in> set (all_targets (snd (watch_timer d T x)))
      \<and> (\<exists>w\<in>set (watchers_of (snd (watch_timer d T x)) T).
            approve_timer w \<and> \<not> Watcher_is_active w))
   \<and> (\<not> m_cleaning d \<and> \<not> fst (watch_io d T f e) \<longrightarrow>
        T \<in> set (all_targets (snd (watch_io d T f e)))
      \<and> (\<exists>w\<in>set (watchers_of (snd (watch_io d T f e)) T).
            approve_io f w \<and> \<not> Watcher_is_active w))
   \<and> (\<not> m_cleaning d \<and> \<not> fst (watch_signal d T s) \<longrightarrow>
        T \<in> set (all_targets (snd (watch_signal d T s)))
      \<and> (\<exists>w\<in>set (watchers_of (snd (watch_signal d T s)) T).
            approve_signal s w \<and> \<not> Watcher_is_active w))"
proof (cases "m_cleaning d")
  case True
  then show ?thesis by (simp add: watch_timer_def watch_io_def watch_signal_def)
next
  case False
  note r = watch_timer_result [OF False, where T = T and x = x]
    watch_io_result [OF False, where T = T and f = f and e = e]
    watch_signal_result [OF False, where T = T and s = s]
  have t: "\<exists>w\<in>set (watchers_of (snd (watch_timer d T x)) T).
            approve_timer w \<and> \<not> Watcher_is_active w"
    if "\<not> fst (watch_timer d T x)"
    using that r(1) by (intro bexI [OF _ r(2)]) (simp add: is_active_def)
  have i: "\<exists>w\<in>set (watchers_of (snd (watch_io d T f e)) T).
            approve_io f w \<and> \<not> Watcher_is_active w"
    if "\<not> fst (watch_io d T f e)"
    using that r(3) by (intro bexI [OF _ r(4)]) (auto simp add: is_active_def fileno_def unbound_def)
  have s: "\<exists>w\<in>set (watchers_of (snd (watch_signal d T s)) T).
            approve_signal s w \<and> \<not> Watcher_is_active w"
    if "\<not> fst (watch_signal d T s)"
    using that r(5) by (intro bexI [OF _ r(6)]) (auto simp add: is_active_def unbound_def)
  show ?thesis using False t i s by (simp add: watch_keys)
qed

theorem failed_watch_keeps_watcher_witness:
  "\<not> m_cleaning (scenario False hello)
   \<and> 9 \<notin> set (all_targets (scenario False hello))
   \<and> \<not> fst (watch_timer (scenario False hello) 9 (Val (- 5)))
   \<and> 9 \<in> set (all_targets (snd (watch_timer (scenario False hello) 9 (Val (- 5)))))
   \<and> (\<exists>w\<in>set (watchers_of (snd (watch_timer (scenario False hello) 9 (Val (- 5)))) 9).
         approve_timer w \<and> \<not> Watcher_is_active w)
   \<and> \<not> fst (watch_timer (scenario False hello) 9 NaN)
   \<and> 9 \<in> set (all_targets (snd (watch_timer (scenario False hello) 9 NaN)))
   \<and> (\<exists>w\<in>set (watchers_of (snd (watch_timer (scenario False hello) 9 NaN)) 9).
         approve_timer w \<and> \<not> Watcher_is_active w)
   \<and> \<not> fst (watch_io (scenario False hello) 9 (- 5) Read)
   \<and> (\<exists>w\<in>set (watchers_of (snd (watch_io (scenario False hello) 9 (- 5) Read)) 9).
         approve_io (- 5) w \<and> \<not> Watcher_is_active w)
   \<and> \<not> fst (watch_io (scenario False hello) 9 5 0)
   \<and> (\<exists>w\<in>set (watchers_of (snd (watch_io (scenario False hello) 9 5 0)) 9).
         approve_io 5 w \<and> \<not> Watcher_is_active w)
   \<and> \<not> fst (watch_signal (scenario False hello) 9 (- 5))
   \<and> (\<exists>w\<in>set (watchers_of (snd (watch_signal (scenario False hello) 9 (- 5))) 9).
         approve_signal (- 5) w \<and> \<not> Watcher_is_active w)
   \<and> m_cleaning ((scenario False hello)\<lparr>m_cleaning := True\<rparr>)
   \<and> targets (snd (watch_timer ((scenario False hello)\<lparr>m_cleaning := True\<rparr>) 9 (Val 1))) =
       targets (scenario False hello)"
proof -
  have f: "\<not> fst (watch_timer (scenario False hello) 9 (Val (- 5)))"
    "\<not> fst (watch_timer (scenario False hello) 9 NaN)"
    "\<not> fst (watch_io (scenario False hello) 9 (- 5) Read)"
    "\<not> fst (watch_io (scenario False hello) 9 5 0)"
    "\<not> fst (watch_signal (scenario False hello) 9 (- 5))"
    by (simp_all add: watch_timer_result watch_io_result watch_signal_result scenario_fields)
  show ?thesis
    using f failed_watch_keeps_watcher [of "scenario False hello" 9 "Val (- 5)" "- 5" Read "- 5"]
      failed_watch_keeps_watcher [of "scenario False hello" 9 NaN 5 0 "- 5"]
      failed_watch_keeps_watcher [of "(scenario False hello)\<lparr>m_cleaning := True\<rparr>" 9 "Val 1" 5 Read 2]
    by (simp add: scenario_fields)
qed

text \<open>The claim as it was stated fails: on a new dispatcher each of these calls returns
  false and leaves the target and an unarmed watcher in the registry.\<close>

theorem failed_watch_unregistered_counterexample:
  "\<not> m_cleaning (Dispatcher_plain hello)
   \<and> targets (Dispatcher_plain hello) = []
   \<and> \<not> fst (watch_timer (Dispatcher_plain hello) (1::nat) (Val (- 1)))
   \<and> targets (snd (watch_timer (Dispatcher_plain hello) (1::nat) (Val (- 1)))) =
       [(1, [TimerWatcher \<lparr>active = False, after = Val (- 1), repeat = Val 0\<rparr>])]
   \<and> \<not> fst (watch_timer (Dispatcher_plain hello) (1::nat) NaN)
   \<and> targets (snd (watch_timer (Dispatcher_plain hello) (1::nat) NaN)) =
       [(1, [TimerWatcher \<lparr>active = False, after = NaN, repeat = NaN\<rparr>])]
   \<and> \<not> fst (watch_io (Dispatcher_plain hello) (1::nat) (- 1) Read)
   \<and> targets (snd (watch_io (Dispatcher_plain hello) (1::nat) (- 1) Read)) =
       [(1, [IoWatcher \<lparr>active = False, fd = - 1, events = 1\<rparr>])]
   \<and> \<not> fst (watch_io (Dispatcher_plain hello) (1::nat) 5 0)
   \<and> targets (snd (watch_io (Dispatcher_plain hello) (1::nat) 5 0)) =
       [(1, [IoWatcher \<lparr>active = False, fd = 5, events = 0\<rparr>])]
   \<and> \<not> fst (watch_signal (Dispatcher_plain hello) (1::nat) (- 1))
   \<and> targets (snd (watch_signal (Dispatcher_plain hello) (1::nat) (- 1))) =
       [(1, [SignalWatcher \<lparr>active = False, signum = - 1\<rparr>])]"
  by (simp add: run_defs Read_def)

subsection \<open>The reuse rule\<close>

text \<open>
  Claim C5. Let no cleanup be in progress and the sequence of \<open>T\<close> satisfy the reuse
  invariant (it does in every state a run reaches). After \<open>watch_timer(T, a)\<close> and
  \<open>watch_timer(T, b)\<close> the sequence holds exactly one timer, with the parameters of
  \<open>b\<close>: \<open>after = repeat = b\<close> and armed for \<open>b \<ge> 0\<close> (a negative \<open>b\<close> is stored as
  \<open>after = -1\<close>, \<open>repeat = 0\<close>, a NaN as it is, both unarmed). A \<open>watch_signal\<close> or \<open>watch_io\<close> call rebinds the
  first watcher bound to the same signal or descriptor or never bound (\<open>-1\<close>), and
  after two calls with the same signal or descriptor exactly one watcher is bound to it
  (to \<open>-1\<close>, when it is negative).
\<close>

theorem watcher_reuse:
  assumes "\<not> m_cleaning d" and "reuse_inv (watchers_of d T)"
  shows "timers (watchers_of (snd (watch_timer (snd (watch_timer d T a)) T b)) T) =
           [\<lparr>active = ge_zero b, after = (if less_zero b then Val (- 1) else b), repeat = (if less_zero b then Val 0 else b)\<rparr>]
       \<and> signums (watchers_of (snd (watch_signal d T s)) T) = bind s (signums (watchers_of d T))
       \<and> count_list (signums (watchers_of (snd (watch_signal (snd (watch_signal d T s)) T s)) T)) (unbound s) = 1
       \<and> io_fds (watchers_of (snd (watch_io d T f e)) T) = bind f (io_fds (watchers_of d T))
       \<and> count_list (io_fds (watchers_of (snd (watch_io (snd (watch_io d T f e)) T f e')) T)) (unbound f) = 1"
proof -
  from assms(2) have t: "length (timers (watchers_of d T)) \<le> 1"
    and i: "bound_once (io_fds (watchers_of d T))" and s: "bound_once (signums (watchers_of d T))"
    by (simp_all add: reuse_inv_def)
  have "timers (watchers_of (snd (watch_timer (snd (watch_timer d T a)) T b)) T) =
           [\<lparr>active = ge_zero b, after = (if less_zero b then Val (- 1) else b), repeat = (if less_zero b then Val 0 else b)\<rparr>]"
    using assms(1) t by (simp add: watchers_watch timers_twice)
  moreover have "signums (watchers_of (snd (watch_signal d T s)) T) = bind s (signums (watchers_of d T))"
    using assms(1) by (simp add: watchers_watch rebind_signal_signums)
  moreover have "count_list (signums (watchers_of (snd (watch_signal (snd (watch_signal d T s)) T s)) T)) (unbound s) = 1"
    using assms(1) s by (simp add: watchers_watch rebind_signal_signums count_bind bound_once_bind)
  moreover have "io_fds (watchers_of (snd (watch_io d T f e)) T) = bind f (io_fds (watchers_of d T))"
    using assms(1) by (simp add: watchers_watch rebind_io_fds)
  moreover have "count_list (io_fds (watchers_of (snd (watch_io (snd (watch_io d T f e)) T f e')) T)) (unbound f) = 1"
    using assms(1) i by (simp add: watchers_watch rebind_io_fds count_bind bound_once_bind)
  ultimately show ?thesis by simp
qed

theorem watcher_reuse_witness:
  "\<not> m_cleaning (scenario False hello) \<and> reuse_inv (watchers_of (scenario False hello) 1)
   \<and> timers (watchers_of (snd (watch_timer (snd (watch_timer (scenario False hello) 1 (Val (1 / 10)))) 1 (Val (1 / 2)))) 1) =
       [\<lparr>active = True, after = Val (1 / 2), repeat = Val (1 / 2)\<rparr>]
   \<and> signums (watchers_of (snd (watch_signal (scenario False hello) 1 2)) 1) = [2]
   \<and> count_list (signums (watchers_of (snd (watch_signal (snd (watch_signal (scenario False hello) 1 2)) 1 2)) 1)) 2 = 1
   \<and> io_fds (watchers_of (snd (watch_io (scenario False hello) 1 7 Read)) 1) = [5, 7]
   \<and> count_list (io_fds (watchers_of (snd (watch_io (snd (watch_io (scenario False hello) 1 5 Read)) 1 5 Read)) 1)) 5 = 1
   \<and> count_list (io_fds (watchers_of (snd (watch_io (snd (watch_io (scenario False hello) 1 7 Read)) 1 7 Read)) 1)) 7 = 1"
  using watcher_reuse [of "scenario False hello" 1 "Val (1 / 10)" "Val (1 / 2)" 2 5 Read Read]
    watcher_reuse [of "scenario False hello" 1 "Val (1 / 10)" "Val (1 / 2)" 2 7 Read Read]
  by (simp add: scenario_def watchers_of_def find_target_def reuse_inv_def timers_def io_fds_def
      signums_def fileno_def unbound_def)

subsection \<open>Cleanup events never re-arm\<close>

text \<open>
  Claim C6. While \<open>m_cleaning\<close> is set, \<open>handler\<close> leaves every watcher of its target
  stopped whatever the user handler returns and whatever calls it makes: the
  \<open>enable_watching\<close> that follows a true return does nothing. If the user handler made
  no call about the target itself, the target still has its watchers, each stopped.
  After the scan of \<open>cleanup\<close> no target has an active watcher, and \<open>cleanup\<close> then
  releases the target.
\<close>

theorem cleanup_event_never_rearms:
  "(m_cleaning d \<longrightarrow> quiescent (handler d T revents payload) T)
   \<and> (m_cleaning d \<and> (\<forall>c\<in>set (fst (on_target_event d T revents payload)). call_target c \<noteq> T) \<longrightarrow>
        find_target (targets (handler d T revents payload)) T =
          map_option (map Watcher_stop) (find_target (targets d) T))
   \<and> quiescent (cleanup_deliver (d\<lparr>m_cleaning := True\<rparr>) (active_targets d)) T
   \<and> T \<notin> set (all_targets (cleanup d))"
proof -
  have "quiescent (d\<lparr>m_cleaning := True\<rparr>) T = quiescent d T"
    by (simp add: quiescent_def watchers_of_def)
  then have "T \<in> set (active_targets d) \<or> quiescent (d\<lparr>m_cleaning := True\<rparr>) T"
    using inactive_quiescent [of T d] by auto
  then have "quiescent (cleanup_deliver (d\<lparr>m_cleaning := True\<rparr>) (active_targets d)) T"
    using cleaning_deliver_quiescent [of "d\<lparr>m_cleaning := True\<rparr>" T "active_targets d"] by simp
  then show ?thesis
    using cleaning_handler_quiescent [of d T revents payload] handler_find [of d T revents payload]
    by (simp add: all_targets_def cleanup_empties)
qed

theorem cleanup_event_never_rearms_witness:
  "m_cleaning ((scenario False insist)\<lparr>m_cleaning := True\<rparr>)
   \<and> snd (on_target_event ((scenario False insist)\<lparr>m_cleaning := True\<rparr>) 1 Cleanup None)
   \<and> quiescent (handler ((scenario False insist)\<lparr>m_cleaning := True\<rparr>) 1 Cleanup None) 1
   \<and> snd (on_target_event ((scenario False rearm)\<lparr>m_cleaning := True\<rparr>) 1 Cleanup None)
   \<and> fst (on_target_event ((scenario False rearm)\<lparr>m_cleaning := True\<rparr>) 1 Cleanup None) = []
   \<and> find_target (targets (handler ((scenario False rearm)\<lparr>m_cleaning := True\<rparr>) 1 Cleanup None)) 1 =
       Some [TimerWatcher \<lparr>active = False, after = Val 1, repeat = Val 1\<rparr>,
             IoWatcher \<lparr>active = False, fd = 5, events = 1\<rparr>]
   \<and> 1 \<in> set (active_targets (scenario False rearm))
   \<and> quiescent (cleanup_deliver ((scenario False rearm)\<lparr>m_cleaning := True\<rparr>)
        (active_targets (scenario False rearm))) 1
   \<and> 1 \<notin> set (all_targets (cleanup (scenario False rearm)))"
  using cleanup_event_never_rearms [of "(scenario False insist)\<lparr>m_cleaning := True\<rparr>" 1 Cleanup None]
    cleanup_event_never_rearms [of "(scenario False rearm)\<lparr>m_cleaning := True\<rparr>" 1 Cleanup None]
    cleanup_event_never_rearms [of "scenario False rearm" 1 Cleanup None]
  by (simp add: scenario_def rearm_def insist_def find_target_def active_targets_def
      is_active_def stop_def stop_watching_def)

subsection \<open>The apply and free hooks\<close>

text \<open>
  Claim C7. With the hooks configured, a call adds exactly one \<open>on_apply(T)\<close> to the
  trace when it makes \<open>T\<close> enter the registry and none otherwise, and exactly one
  \<open>on_free(T)\<close> when it makes \<open>T\<close> leave it and none otherwise; a \<open>watch_*\<close> call for
  an unregistered target calls \<open>on_apply\<close> whether or not the watcher could be armed,
  and \<open>release_watching\<close> of a registered target calls \<open>on_free\<close>. Hence after any
  run of a dispatcher constructed with hooks, \<open>on_apply(T)\<close> was called as often as
  \<open>on_free(T)\<close> for a target that is not registered, and once more for one that is.
\<close>

theorem hooks_paired:
  "(on_target_present d \<longrightarrow>
      count_list (trace (exec_call d c)) (OnApply T) =
        count_list (trace d) (OnApply T)
        + (if T \<notin> set (all_targets d) \<and> T \<in> set (all_targets (exec_call d c)) then 1 else 0)
    \<and> count_list (trace (exec_call d c)) (OnFree T) =
        count_list (trace d) (OnFree T)
        + (if T \<in> set (all_targets d) \<and> T \<notin> set (all_targets (exec_call d c)) then 1 else 0))
   \<and> (on_target_present d \<and> \<not> m_cleaning d \<and> T \<notin> set (all_targets d) \<longrightarrow>
        trace (snd (watch_timer d T x)) = trace d @ [OnApply T]
      \<and> trace (snd (watch_io d T f e)) = trace d @ [OnApply T]
      \<and> trace (snd (watch_signal d T s)) = trace d @ [OnApply T])
   \<and> (on_target_present d \<and> T \<in> set (all_targets d) \<longrightarrow>
        trace (snd (release_watching d T)) = trace d @ [OnFree T])
   \<and> count_list (trace (run (Dispatcher_hooks h) steps)) (OnApply T) =
       count_list (trace (run (Dispatcher_hooks h) steps)) (OnFree T)
       + (if T \<in> set (all_targets (run (Dispatcher_hooks h) steps)) then 1 else 0)"
proof -
  have "on_target_present (Dispatcher_hooks h) \<and> hooks_balanced (Dispatcher_hooks h) T"
    by (simp add: balanced_init) (simp add: Dispatcher_hooks_def)
  then have "hooks_balanced (run (Dispatcher_hooks h) steps) T"
    using balanced_run by blast
  then show ?thesis
    using exec_call_apply [of d c T] exec_call_free [of d c T]
    by (simp add: hooks_balanced_def watch_trace release_trace all_targets_find
        del: exec_call.simps)
qed

theorem hooks_paired_witness:
  "on_target_present (scenario True hello) \<and> \<not> m_cleaning (scenario True hello)
   \<and> 9 \<notin> set (all_targets (scenario True hello))
   \<and> \<not> fst (watch_timer (scenario True hello) 9 (Val (- 1)))
   \<and> trace (snd (watch_timer (scenario True hello) 9 (Val (- 1)))) = trace (scenario True hello) @ [OnApply 9]
   \<and> count_list (trace (exec_call (scenario True hello) (WatchTimer 9 (Val (- 1))))) (OnApply 9) = 1
   \<and> count_list (trace (exec_call (scenario True hello) (WatchTimer 1 (Val 2)))) (OnApply 1) = 1
   \<and> 1 \<in> set (all_targets (scenario True hello))
   \<and> trace (snd (release_watching (scenario True hello) 1)) = trace (scenario True hello) @ [OnFree 1]
   \<and> count_list (trace (exec_call (scenario True hello) (ReleaseWatching 1))) (OnFree 1) = 1
   \<and> count_list (trace (run (Dispatcher_hooks rearm)
        [Call (WatchTimer 1 (Val 1)), Call (WatchSignal 2 (- 1)), Fire 1 Timer None,
         Call (ReleaseWatching 1), Call (WatchTimer 1 (Val 1)), RunCleanup])) (OnApply (1::nat)) =
      count_list (trace (run (Dispatcher_hooks rearm)
        [Call (WatchTimer 1 (Val 1)), Call (WatchSignal 2 (- 1)), Fire 1 Timer None,
         Call (ReleaseWatching 1), Call (WatchTimer 1 (Val 1)), RunCleanup])) (OnFree (1::nat))"
proof -
  have r: "all_targets (run (Dispatcher_hooks rearm)
        [Call (WatchTimer 1 (Val 1)), Call (WatchSignal 2 (- 1)), Fire 1 Timer None,
         Call (ReleaseWatching 1), Call (WatchTimer 1 (Val 1)), RunCleanup]) = ([] :: nat list)"
    by (simp add: run_def all_targets_def cleanup_empties del: exec_call.simps)
  have k: "all_targets (run (Dispatcher_hooks rearm) []) = ([] :: nat list)"
    by (simp add: run_def all_targets_def Dispatcher_hooks_def)
  show ?thesis
    using hooks_paired [of "scenario True hello" "WatchTimer 1 (Val 2)" 1 "Val (- 1)" 5 1 2 rearm "[]"]
      hooks_paired [of "scenario True hello" "ReleaseWatching 1" 1 "Val (- 1)" 5 1 2 rearm
        "[Call (WatchTimer 1 (Val 1)), Call (WatchSignal 2 (- 1)), Fire 1 Timer None,
          Call (ReleaseWatching 1), Call (WatchTimer 1 (Val 1)), RunCleanup]"]
      hooks_paired [of "scenario True hello" "WatchTimer 9 (Val (- 1))" 9 "Val (- 1)" 5 1 2 rearm "[]"]
      watch_timer_result(1) [of "scenario True hello" 9 "Val (- 1)"] r k
    by (simp add: scenario_fields watch_keys)
qed

subsection \<open>release_watching twice\<close>

text \<open>
  Claim C8. After \<open>release_watching(T)\<close> the target is absent from the registry, and a
  second \<open>release_watching(T)\<close> returns false and leaves the dispatcher as it is:
  registry, watchers and trace (so no \<open>on_free\<close> call).
\<close>

theorem release_watching_idempotent:
  "T \<notin> set (all_targets (snd (release_watching d T)))
   \<and> release_watching (snd (release_watching d T)) T = (False, snd (release_watching d T))"
  by (simp add: release_watching_def [of "snd (release_watching d T)"])

theorem release_watching_idempotent_witness:
  "fst (release_watching (scenario True hello) 1)
   \<and> 1 \<in> set (all_targets (scenario True hello))
   \<and> 1 \<notin> set (all_targets (snd (release_watching (scenario True hello) 1)))
   \<and> \<not> fst (release_watching (snd (release_watching (scenario True hello) 1)) 1)
   \<and> trace (snd (release_watching (snd (release_watching (scenario True hello) 1)) 1)) =
       trace (scenario True hello) @ [OnFree 1]"
  using release_watching_idempotent [of 1 "scenario True hello"]
  by (simp add: release_fst release_trace scenario_def find_target_def all_targets_def)

subsection \<open>TimerWatcher::start\<close>

text \<open>
  Claim C9. \<open>TimerWatcher::start(after, repeat)\<close>: a negative \<open>after\<close> is stored as
  \<open>-1\<close>, the watcher is not armed and \<open>start\<close> returns false; a negative \<open>repeat\<close>
  is stored as \<open>0\<close>; for \<open>after \<ge> 0\<close> the watcher is armed and \<open>start\<close> returns true,
  and non-negative parameters are stored as given. The cases are those of the code's
  comparisons of a \<open>double\<close> with zero (a NaN is in none of them).
\<close>

theorem TimerWatcher_start_normalises:
  "(less_zero a \<longrightarrow> after (snd (TimerWatcher_start w a r)) = Val (- 1)
            \<and> \<not> is_active (snd (TimerWatcher_start w a r))
            \<and> \<not> fst (TimerWatcher_start w a r))
   \<and> (less_zero r \<longrightarrow> repeat (snd (TimerWatcher_start w a r)) = Val 0)
   \<and> (ge_zero a \<longrightarrow> is_active (snd (TimerWatcher_start w a r))
            \<and> fst (TimerWatcher_start w a r)
            \<and> after (snd (TimerWatcher_start w a r)) = a)
   \<and> (ge_zero r \<longrightarrow> repeat (snd (TimerWatcher_start w a r)) = r)"
  by (cases a; cases r)
     (simp_all add: TimerWatcher_start_def Let_def is_active_def stop_def
        start_watching_def stop_watching_def)

theorem TimerWatcher_start_normalises_witness:
  "less_zero (Val (- 5)) \<and> less_zero (Val (- 2)) \<and> ge_zero (Val 3)
   \<and> after (snd (TimerWatcher_start (new_TimerWatcher\<lparr>active := True\<rparr>) (Val (- 5)) (Val (- 2)))) = Val (- 1)
   \<and> \<not> is_active (snd (TimerWatcher_start (new_TimerWatcher\<lparr>active := True\<rparr>) (Val (- 5)) (Val (- 2))))
   \<and> \<not> fst (TimerWatcher_start (new_TimerWatcher\<lparr>active := True\<rparr>) (Val (- 5)) (Val (- 2)))
   \<and> repeat (snd (TimerWatcher_start (new_TimerWatcher\<lparr>active := True\<rparr>) (Val (- 5)) (Val (- 2)))) = Val 0
   \<and> is_active (snd (TimerWatcher_start new_TimerWatcher (Val 3) (Val 3)))
   \<and> fst (TimerWatcher_start new_TimerWatcher (Val 3) (Val 3))
   \<and> after (snd (TimerWatcher_start new_TimerWatcher (Val 3) (Val 3))) = Val 3
   \<and> repeat (snd (TimerWatcher_start new_TimerWatcher (Val 3) (Val 3))) = Val 3"
  using TimerWatcher_start_normalises [of "Val (- 5)" "new_TimerWatcher\<lparr>active := True\<rparr>" "Val (- 2)"]
    TimerWatcher_start_normalises [of "Val 3" new_TimerWatcher "Val 3"]
  by simp

subsection \<open>cleanup twice\<close>

text \<open>
  Claim C10. After \<open>cleanup\<close> the registry is empty and \<open>m_cleaning\<close> is false; a
  second \<open>cleanup\<close>, and so the one of the destructor, returns the same dispatcher:
  the trace is unchanged, so neither the user handler nor \<open>on_free\<close> is called.
\<close>

theorem cleanup_idempotent:
  "targets (cleanup d) = [] \<and> \<not> m_cleaning (cleanup d)
   \<and> cleanup (cleanup d) = cleanup d \<and> destructor (cleanup d) = cleanup d"
  by (simp add: destructor_def cleanup_empties cleanup_of_empty)

theorem cleanup_idempotent_witness:
  "targets (scenario True hello) \<noteq> []
   \<and> targets (cleanup (scenario True hello)) = []
   \<and> \<not> m_cleaning (cleanup (scenario True hello))
   \<and> trace (destructor (cleanup (scenario True hello))) = trace (cleanup (scenario True hello))
   \<and> destructor (cleanup (scenario True hello)) = cleanup (scenario True hello)"
  using cleanup_idempotent [of "scenario True hello"] by (simp add: scenario_def)

end
